theory Spec2Isabelle
  imports Complex_Main "HOL-Library.AList"
begin

section \<open>Data model of the playback engine (class LiveMusicHelper)\<close>

text \<open>
  The engine is the class \<^verbatim>\<open>LiveMusicHelper\<close>. Its private fields become one record;
  every method becomes a function from the record to the updated record. What a method
  does to the outside world (events dispatched, buffers handed to the audio clock, calls
  made on the backend session, files offered for download, one-shot timers armed) is
  appended to a log field of the same record, in the order the code performs it.

  Numbers of the source are IEEE doubles. Times, gains and weights are modelled as
  \<^typ>\<open>real\<close>: the code only compares them, takes minima and adds them. NaN and the
  infinities are not modelled.
\<close>

datatype PlaybackState = Stopped | Loading | Playing | Paused

text \<open>A prompt as the engine reads it (\<^verbatim>\<open>promptId\<close>, \<^verbatim>\<open>text\<close>, \<^verbatim>\<open>weight\<close>); colour and
  MIDI controller number are never read by the engine.\<close>

record Prompt =
  promptId :: string
  prompt_text :: string
  prompt_weight :: real

text \<open>A decoded buffer (\<^verbatim>\<open>AudioBuffer\<close> of the Web Audio interface): \<^verbatim>\<open>sampleRate\<close>,
  \<^verbatim>\<open>length\<close> in frames, and one sample array per channel.\<close>

record AudioBuffer =
  sampleRate :: nat
  frames :: nat
  channelData :: "real list list"

definition numberOfChannels :: "AudioBuffer \<Rightarrow> nat" where
  "numberOfChannels b = length (channelData b)"

definition duration :: "AudioBuffer \<Rightarrow> real" where
  "duration b = real (frames b) / real (sampleRate b)"

text \<open>Every buffer the platform hands out has at least one channel, at least one frame,
  and channel arrays of exactly \<^verbatim>\<open>length\<close> samples.\<close>

definition wf_buffer :: "AudioBuffer \<Rightarrow> bool" where
  "wf_buffer b \<longleftrightarrow>
     0 < numberOfChannels b \<and> 0 < frames b \<and>
     list_all (\<lambda>ch. length ch = frames b) (channelData b)"

datatype error =
    IndexSizeError
  | NotSupportedError
  | JsError string

datatype event =
    PlaybackStateChanged PlaybackState
  | RecordingStateChanged bool
  | FilteredPrompt string
  | ErrorEvent string

text \<open>The session handle: either a handle of the backend (identified by a number) or the
  mock object that \<^verbatim>\<open>connect\<close> returns after a failure, whose four methods do nothing.\<close>

datatype session = LiveSession nat | MockSession

datatype sessionCall = SPlay | SPause | SStop | SSetWeightedPrompts "Prompt list"

text \<open>A promise object is pending or resolved. Promise objects live in a store indexed by
  address, because \<^verbatim>\<open>play\<close> keeps awaiting the promise it obtained even after
  \<^verbatim>\<open>stop\<close> has set the field \<^verbatim>\<open>sessionPromise\<close> to null.\<close>

datatype promise = Pending | Resolved session

record player =
  volume :: real
  player_paused :: bool
  currentTime :: real

record engine =
  session :: "session option"
  sessionPromise :: "nat option"
  promises :: "promise list"
  isFallbackMode :: bool
  fallbackPlayers :: "(string \<times> player) list"
  filteredPrompts :: "string list"
  nextStartTime :: real
  bufferTime :: real
  playbackState :: PlaybackState
  prompts :: "(string \<times> Prompt) list"
  isRecording :: bool
  recordedBuffers :: "AudioBuffer list"
  outputGain :: real
  masterVolume :: real
  dryGain :: real
  distortionWetGain :: real
  delayFeedback :: real
  delayWetGain :: real
  reverbWetGain :: real
  isAudioGraphConnected :: bool
  events :: "event list"
  scheduled :: "(real \<times> AudioBuffer) list"
  pendingTimers :: nat
  sessionCalls :: "(nat \<times> sessionCall) list"
  downloads :: "(string \<times> nat list) list"

text \<open>The constructor (lines 117--152). A gain node starts at gain 1. A gain field holds
  the value the parameter settles at once its ramp has ended.\<close>

definition new_engine :: engine where
  "new_engine =
     \<lparr> session = None, sessionPromise = None, promises = [],
       isFallbackMode = False, fallbackPlayers = [], filteredPrompts = [],
       nextStartTime = 0, bufferTime = 2, playbackState = Stopped, prompts = [],
       isRecording = False, recordedBuffers = [],
       outputGain = 1, masterVolume = 1, dryGain = 1, distortionWetGain = 0,
       delayFeedback = 0.5, delayWetGain = 0, reverbWetGain = 0,
       isAudioGraphConnected = False,
       events = [], scheduled = [], pendingTimers = 0, sessionCalls = [],
       downloads = [] \<rparr>"

definition dispatchEvent :: "event \<Rightarrow> engine \<Rightarrow> engine" where
  "dispatchEvent e s = s\<lparr>events := events s @ [e]\<rparr>"

definition setPlaybackState :: "PlaybackState \<Rightarrow> engine \<Rightarrow> engine" where
  "setPlaybackState st s =
     dispatchEvent (PlaybackStateChanged st) (s\<lparr>playbackState := st\<rparr>)"

section \<open>StreamScheduler: processAudioChunks\<close>

text \<open>
  \<^verbatim>\<open>processAudioChunks\<close> (lines 295--324) is an async function with one suspension point,
  the decoding of the first chunk. The part after the suspension point is
  \<open>scheduleDecoded\<close>: it gets the decoded buffer and the audio clock \<open>now\<close>
  (\<^verbatim>\<open>audioContext.currentTime\<close>, read within one synchronous block and taken to be the
  same at both reads).

  The one-shot timer of line 313 is counted in \<open>pendingTimers\<close>; \<open>timerFired\<close> is its
  callback.
\<close>

definition scheduleDecoded :: "real \<Rightarrow> AudioBuffer \<Rightarrow> engine \<Rightarrow> engine" where
  "scheduleDecoded now audioBuffer s =
     (let s1 = (if isRecording s
                then s\<lparr>recordedBuffers := recordedBuffers s @ [audioBuffer]\<rparr> else s);
          s2 = (if nextStartTime s1 = 0
                then s1\<lparr>nextStartTime := now + bufferTime s1,
                        pendingTimers := pendingTimers s1 + 1\<rparr>
                else s1)
      in if nextStartTime s2 < now
         then (setPlaybackState Loading s2)\<lparr>nextStartTime := 0\<rparr>
         else s2\<lparr>scheduled := scheduled s2 @ [(nextStartTime s2, audioBuffer)],
                 nextStartTime := nextStartTime s2 + duration audioBuffer\<rparr>)"

definition timerFired :: "engine \<Rightarrow> engine" where
  "timerFired s = setPlaybackState Playing (s\<lparr>pendingTimers := pendingTimers s - 1\<rparr>)"

text \<open>
  The whole function, when nothing else runs during the decoding. The decoder
  (\<^verbatim>\<open>decodeAudioData (decode ...)\<close> of the module \<^verbatim>\<open>./audio\<close>) is a parameter: it maps the
  payload of a chunk to a buffer, or to \<open>None\<close> when it throws. An exception inside the
  async function (the decoder's, or the TypeError of \<^verbatim>\<open>audioChunks[0].data\<close> on an empty
  array) rejects the promise nobody awaits and leaves the engine as it was.
\<close>

definition processAudioChunks ::
  "('c \<Rightarrow> AudioBuffer option) \<Rightarrow> real \<Rightarrow> 'c list \<Rightarrow> engine \<Rightarrow> engine" where
  "processAudioChunks decodeChunk now audioChunks s =
     (if playbackState s = Paused \<or> playbackState s = Stopped then s
      else (case audioChunks of
              [] \<Rightarrow> s
            | c # _ \<Rightarrow> (case decodeChunk c of
                          None \<Rightarrow> s
                        | Some audioBuffer \<Rightarrow> scheduleDecoded now audioBuffer s)))"

section \<open>SessionConnector and FallbackPlayer\<close>

definition FALLBACK_AUDIO_MAP :: "(string \<times> string) list" where
  "FALLBACK_AUDIO_MAP =
     [(''Bossa Nova'', ''assets/bossa_nova.wav''),
      (''Chillwave'', ''assets/chillwave.wav''),
      (''Drum and Bass'', ''assets/drum_and_bass.wav''),
      (''Funk'', ''assets/funk.wav''),
      (''Ambient'', ''assets/ambient.wav''),
      (''Lo-fi'', ''assets/lo_fi.wav'')]"

text \<open>\<^verbatim>\<open>initializeFallbackPlayers\<close> (lines 276--288): one new looping player of volume 0 per
  asset; \<^verbatim>\<open>Map.set\<close> replaces the value of a key already present and appends a new key.\<close>

definition new_player :: player where
  "new_player = \<lparr> volume = 0, player_paused = True, currentTime = 0 \<rparr>"

definition initializeFallbackPlayers :: "engine \<Rightarrow> engine" where
  "initializeFallbackPlayers s =
     s\<lparr>fallbackPlayers :=
         fold (\<lambda>(promptText, audioUrl) m. AList.update promptText new_player m)
              FALLBACK_AUDIO_MAP (fallbackPlayers s)\<rparr>"

text \<open>\<^verbatim>\<open>getSession\<close> (lines 228--231): with no promise stored, \<^verbatim>\<open>connect\<close> is started and its
  promise, still pending, is stored. The address of the promise is returned.\<close>

definition getSession :: "engine \<Rightarrow> nat \<times> engine" where
  "getSession s =
     (case sessionPromise s of
        None \<Rightarrow> (length (promises s),
                 s\<lparr>promises := promises s @ [Pending],
                   sessionPromise := Some (length (promises s))\<rparr>)
      | Some a \<Rightarrow> (a, s))"

definition promiseAt :: "engine \<Rightarrow> nat \<Rightarrow> promise" where
  "promiseAt s a = (if a < length (promises s) then promises s ! a else Pending)"

text \<open>\<^verbatim>\<open>connect\<close> (lines 233--274) after its own suspension point, for the promise at address
  \<open>a\<close>: the backend either delivered a handle (lines 254--257) or the attempt failed
  (the catch block, lines 259--273).\<close>

datatype connectResult = Connected nat | ConnectFailed

definition connect_done :: "nat \<Rightarrow> connectResult \<Rightarrow> engine \<Rightarrow> engine" where
  "connect_done a r s =
     (case r of
        Connected h \<Rightarrow>
          s\<lparr>isFallbackMode := False,
            promises := (promises s)[a := Resolved (LiveSession h)]\<rparr>
      | ConnectFailed \<Rightarrow>
          (let s1 = s\<lparr>isFallbackMode := True\<rparr>;
               s2 = dispatchEvent (ErrorEvent
                 ''Real-time connection failed. Activating offline fallback mode with local audio samples.'') s1;
               s3 = initializeFallbackPlayers s2
           in s3\<lparr>promises := (promises s3)[a := Resolved MockSession]\<rparr>))"

text \<open>A call on the session handle. The calls on a backend handle are logged; the methods
  of the mock object do nothing.\<close>

definition callSession :: "sessionCall \<Rightarrow> session \<Rightarrow> engine \<Rightarrow> engine" where
  "callSession c sess s =
     (case sess of
        LiveSession h \<Rightarrow> s\<lparr>sessionCalls := sessionCalls s @ [(h, c)]\<rparr>
      | MockSession \<Rightarrow> s)"

section \<open>PlaybackStateMachine: pause, stop\<close>

definition pause :: "engine \<Rightarrow> engine" where
  "pause s =
     (let s1 = (if isFallbackMode s
                then s\<lparr>fallbackPlayers :=
                        map (\<lambda>(k, p). (k, p\<lparr>player_paused := True\<rparr>)) (fallbackPlayers s)\<rparr>
                else (case session s of
                        Some sess \<Rightarrow> callSession SPause sess s
                      | None \<Rightarrow> s));
          s2 = setPlaybackState Paused s1
      in s2\<lparr>outputGain := 0, nextStartTime := 0\<rparr>)"

definition stop :: "engine \<Rightarrow> engine" where
  "stop s =
     (let s1 = (if isFallbackMode s
                then s\<lparr>fallbackPlayers :=
                        map (\<lambda>(k, p). (k, p\<lparr>player_paused := True, currentTime := 0\<rparr>))
                            (fallbackPlayers s)\<rparr>
                else (case session s of
                        Some sess \<Rightarrow> callSession SStop sess s
                      | None \<Rightarrow> s));
          s2 = setPlaybackState Stopped s1
      in s2\<lparr>outputGain := 0, nextStartTime := 0, session := None,
            sessionPromise := None, isFallbackMode := False\<rparr>)"

text \<open>The callbacks handed to the backend in \<^verbatim>\<open>connect\<close> (lines 239--251), other than
  \<^verbatim>\<open>onAudioChunk\<close>, which is \<open>processAudioChunks\<close>.\<close>

definition onFilteredPrompt :: "string \<Rightarrow> engine \<Rightarrow> engine" where
  "onFilteredPrompt txt s =
     (dispatchEvent (FilteredPrompt txt) s)\<lparr>filteredPrompts := List.insert txt (filteredPrompts s)\<rparr>"

definition onError :: "string \<Rightarrow> engine \<Rightarrow> engine" where
  "onError msg s = stop (dispatchEvent (ErrorEvent msg) s)"

section \<open>PromptThrottler: activePrompts, setWeightedPrompts\<close>

definition activePrompts :: "engine \<Rightarrow> Prompt list" where
  "activePrompts s =
     filter (\<lambda>p. prompt_text p \<notin> set (filteredPrompts s) \<and> prompt_weight p \<noteq> 0)
            (map snd (prompts s))"

text \<open>The loop of lines 337--345 over the fallback players. The setter of
  \<^verbatim>\<open>HTMLMediaElement.volume\<close> throws an IndexSizeError for a value outside \<open>[0, 1]\<close>; the
  players before the one it throws at keep their new volume, the others their old one.\<close>

fun setFallbackVolumes ::
  "Prompt list \<Rightarrow> (string \<times> player) list \<Rightarrow> (string \<times> player) list \<times> error option" where
  "setFallbackVolumes ap [] = ([], None)"
| "setFallbackVolumes ap ((txt, pl) # rest) =
     (case find (\<lambda>p. prompt_text p = txt) ap of
        Some prompt \<Rightarrow>
          (let targetVolume = min (prompt_weight prompt) 1
           in if targetVolume < 0 then ((txt, pl) # rest, Some IndexSizeError)
              else (let (rest', e) = setFallbackVolumes ap rest
                    in ((txt, pl\<lparr>volume := targetVolume\<rparr>) # rest', e)))
      | None \<Rightarrow>
          (let (rest', e) = setFallbackVolumes ap rest
           in ((txt, pl\<lparr>volume := 0\<rparr>) # rest', e)))"

text \<open>
  The function wrapped by \<^verbatim>\<open>throttle\<close> (lines 333--365). \<open>rejected\<close> is the message of the
  error with which the backend rejects \<^verbatim>\<open>session.setWeightedPrompts\<close>, if it does. The
  result carries the exception that escapes the function, if any.
\<close>

definition setWeightedPrompts_body ::
  "string option \<Rightarrow> (string \<times> Prompt) list \<Rightarrow> engine \<Rightarrow> engine \<times> error option" where
  "setWeightedPrompts_body rejected ps s =
     (let s1 = s\<lparr>prompts := ps\<rparr>
      in if isFallbackMode s1
         then (let (pls, e) = setFallbackVolumes (activePrompts s1) (fallbackPlayers s1)
               in (s1\<lparr>fallbackPlayers := pls\<rparr>, e))
         else if activePrompts s1 = []
         then (pause (dispatchEvent
                 (ErrorEvent ''There needs to be one active prompt to play.'') s1), None)
         else (case session s1 of
                 None \<Rightarrow> (s1, None)
               | Some MockSession \<Rightarrow> (s1, None)
               | Some (LiveSession h) \<Rightarrow>
                   (let s2 = callSession (SSetWeightedPrompts (activePrompts s1))
                                         (LiveSession h) s1
                    in case rejected of
                         None \<Rightarrow> (s2, None)
                       | Some msg \<Rightarrow> (pause (dispatchEvent (ErrorEvent msg) s2), None))))"

text \<open>
  \<^verbatim>\<open>throttle\<close> is imported from \<^verbatim>\<open>./throttle\<close>. Of a call it either runs the wrapped function
  at once or not at all within this call; which of the two is the parameter \<open>fires\<close>.
\<close>

definition setWeightedPrompts ::
  "bool \<Rightarrow> string option \<Rightarrow> (string \<times> Prompt) list \<Rightarrow> engine \<Rightarrow> engine \<times> error option" where
  "setWeightedPrompts fires rejected ps s =
     (if fires then setWeightedPrompts_body rejected ps s else (s, None))"

section \<open>PlaybackStateMachine: play, playPause\<close>

definition connectAudioGraph :: "engine \<Rightarrow> engine" where
  "connectAudioGraph s = s\<lparr>isAudioGraphConnected := True\<rparr>"

text \<open>\<^verbatim>\<open>play\<close> (lines 367--384) up to its first suspension point,
  \<^verbatim>\<open>await this.getSession()\<close>: the result is the address of the awaited promise.\<close>

definition play_begin :: "engine \<Rightarrow> nat \<times> engine" where
  "play_begin s = getSession (connectAudioGraph (setPlaybackState Loading s))"

text \<open>\<^verbatim>\<open>play\<close> from line 370 on, once the awaited promise has resolved with \<open>sess\<close>. An
  exception escaping \<^verbatim>\<open>setWeightedPrompts\<close> ends the function there; so does the TypeError
  of \<^verbatim>\<open>this.session.play()\<close> on a null session.\<close>

definition play_resume :: "bool \<Rightarrow> string option \<Rightarrow> session \<Rightarrow> engine \<Rightarrow> engine" where
  "play_resume fires rejected sess s0 =
     (let s = s0\<lparr>session := Some sess\<rparr>
      in if isFallbackMode s
         then (let s1 = s\<lparr>fallbackPlayers :=
                           map (\<lambda>(k, p). (k, p\<lparr>player_paused := False\<rparr>)) (fallbackPlayers s)\<rparr>;
                   (s2, e) = setWeightedPrompts fires rejected (prompts s1) s1
               in if e = None then setPlaybackState Playing s2 else s2)
         else (let (s2, e) = setWeightedPrompts fires rejected (prompts s) s
               in if e = None
                  then (case session s2 of
                          None \<Rightarrow> s2
                        | Some sess' \<Rightarrow> (callSession SPlay sess' s2)\<lparr>outputGain := 1\<rparr>)
                  else s2))"

text \<open>A whole call of \<^verbatim>\<open>play\<close> during which nothing else runs: the connect attempt, if one
  is pending, ends with \<open>r\<close>.\<close>

definition play :: "connectResult \<Rightarrow> bool \<Rightarrow> string option \<Rightarrow> engine \<Rightarrow> engine" where
  "play r fires rejected s =
     (let (a, s1) = play_begin s;
          s2 = (if promiseAt s1 a = Pending then connect_done a r s1 else s1)
      in case promiseAt s2 a of
           Resolved sess \<Rightarrow> play_resume fires rejected sess s2
         | Pending \<Rightarrow> s2)"

definition playPause :: "connectResult \<Rightarrow> bool \<Rightarrow> string option \<Rightarrow> engine \<Rightarrow> engine" where
  "playPause r fires rejected s =
     (case playbackState s of
        Playing \<Rightarrow> pause s
      | Paused \<Rightarrow> play r fires rejected s
      | Stopped \<Rightarrow> play r fires rejected s
      | Loading \<Rightarrow> stop s)"

section \<open>Recorder\<close>

definition startRecording :: "engine \<Rightarrow> engine" where
  "startRecording s =
     (if isFallbackMode s
      then dispatchEvent (ErrorEvent ''Recording is not available in fallback mode.'') s
      else if playbackState s \<noteq> Playing \<and> playbackState s \<noteq> Loading
      then dispatchEvent (ErrorEvent ''Please start playback before recording.'') s
      else dispatchEvent (RecordingStateChanged True)
             (s\<lparr>recordedBuffers := [], isRecording := True\<rparr>))"

subsection \<open>The platform's buffer interface\<close>

text \<open>\<^verbatim>\<open>createBuffer\<close> throws a NotSupportedError for a channel count or a length of zero;
  a new buffer is silent.\<close>

definition createBuffer :: "nat \<Rightarrow> nat \<Rightarrow> nat \<Rightarrow> error + AudioBuffer" where
  "createBuffer nChannels len rate =
     (if nChannels = 0 \<or> len = 0 then Inl NotSupportedError
      else Inr \<lparr> sampleRate = rate, frames = len,
                 channelData = replicate nChannels (replicate len 0) \<rparr>)"

text \<open>\<^verbatim>\<open>getChannelData\<close> throws an IndexSizeError for a channel the buffer does not have.\<close>

definition getChannelData :: "AudioBuffer \<Rightarrow> nat \<Rightarrow> error + real list" where
  "getChannelData b channel =
     (if channel < numberOfChannels b then Inr (channelData b ! channel)
      else Inl IndexSizeError)"

text \<open>\<^verbatim>\<open>copyToChannel\<close> throws an IndexSizeError for a channel the buffer does not have, and
  copies \<open>max 0 (min (Nb - k) Nf)\<close> frames of the source to offset \<open>k\<close>.\<close>

definition copyToChannel :: "AudioBuffer \<Rightarrow> real list \<Rightarrow> nat \<Rightarrow> nat \<Rightarrow> error + AudioBuffer" where
  "copyToChannel result source channelNumber startInChannel =
     (if numberOfChannels result \<le> channelNumber then Inl IndexSizeError
      else (let old = channelData result ! channelNumber;
                n = min (length old - startInChannel) (length source)
            in Inr (result\<lparr>channelData := (channelData result)
                     [channelNumber := take startInChannel old @ take n source
                                         @ drop (startInChannel + n) old]\<rparr>)))"

subsection \<open>concatenateAudioBuffers (lines 462--487)\<close>

text \<open>The inner loop over the channels \<open>0 ..< numberOfChannels\<close> of one buffer.\<close>

fun copyChannels :: "AudioBuffer \<Rightarrow> nat list \<Rightarrow> nat \<Rightarrow> AudioBuffer \<Rightarrow> error + AudioBuffer" where
  "copyChannels buffer [] offset result = Inr result"
| "copyChannels buffer (channel # chs) offset result =
     (case getChannelData buffer channel of
        Inl e \<Rightarrow> Inl e
      | Inr src \<Rightarrow>
          (case copyToChannel result src channel offset of
             Inl e \<Rightarrow> Inl e
           | Inr result' \<Rightarrow> copyChannels buffer chs offset result'))"

text \<open>The outer loop over the buffers, with the running offset.\<close>

fun copyBuffers :: "nat \<Rightarrow> AudioBuffer list \<Rightarrow> nat \<Rightarrow> AudioBuffer \<Rightarrow> error + AudioBuffer" where
  "copyBuffers nChannels [] offset result = Inr result"
| "copyBuffers nChannels (buffer # bs) offset result =
     (case copyChannels buffer [0 ..< nChannels] offset result of
        Inl e \<Rightarrow> Inl e
      | Inr result' \<Rightarrow> copyBuffers nChannels bs (offset + frames buffer) result')"

definition concatenateAudioBuffers :: "AudioBuffer list \<Rightarrow> error + AudioBuffer" where
  "concatenateAudioBuffers buffers =
     (case buffers of
        [] \<Rightarrow> Inl (JsError ''Buffer list is empty'')
      | b0 # _ \<Rightarrow>
          (let totalLength = sum_list (map frames buffers)
           in case createBuffer (numberOfChannels b0) totalLength (sampleRate b0) of
                Inl e \<Rightarrow> Inl e
              | Inr result \<Rightarrow> copyBuffers (numberOfChannels b0) buffers 0 result))"

subsection \<open>audioBufferToWav (lines 489--535)\<close>

text \<open>
  The \<^verbatim>\<open>DataView\<close> is a list of bytes, each a number below 256. Its setters write at an
  offset; the code passes \<^verbatim>\<open>true\<close> for little-endian everywhere. Every offset the function
  writes at lies inside the view (44 header bytes, then two bytes per sample of a view of
  \<open>frames * channels * 2 + 44\<close> bytes), so the RangeError of the setters cannot occur.
\<close>

definition setUint8 :: "nat list \<Rightarrow> nat \<Rightarrow> nat \<Rightarrow> nat list" where
  "setUint8 view off v = view[off := v mod 256]"

definition setUint16 :: "nat list \<Rightarrow> nat \<Rightarrow> nat \<Rightarrow> nat list" where
  "setUint16 view off v = view[off := v mod 256, off + 1 := (v div 256) mod 256]"

definition setUint32 :: "nat list \<Rightarrow> nat \<Rightarrow> nat \<Rightarrow> nat list" where
  "setUint32 view off v =
     view[off := v mod 256, off + 1 := (v div 256) mod 256,
          off + 2 := (v div 65536) mod 256, off + 3 := (v div 16777216) mod 256]"

text \<open>\<^verbatim>\<open>setInt16\<close> stores the two's complement of its argument modulo \<open>2^16\<close>.\<close>

definition setInt16 :: "nat list \<Rightarrow> nat \<Rightarrow> int \<Rightarrow> nat list" where
  "setInt16 view off v = setUint16 view off (nat (v mod 65536))"

fun setString :: "nat list \<Rightarrow> nat \<Rightarrow> string \<Rightarrow> nat list" where
  "setString view off [] = view"
| "setString view off (c # cs) = setString (setUint8 view off (of_char c)) (off + 1) cs"

text \<open>\<^verbatim>\<open>x | 0\<close>: the number is truncated towards zero and reduced modulo \<open>2^32\<close> into the
  signed 32-bit range.\<close>

definition toInt32 :: "real \<Rightarrow> int" where
  "toInt32 x =
     (let t = (if x < 0 then \<lceil>x\<rceil> else \<lfloor>x\<rfloor>); m = t mod 4294967296
      in if 2147483648 \<le> m then m - 4294967296 else m)"

text \<open>Lines 527--528. In \<^verbatim>\<open>0.5 + sample < 0 ? ... : ...\<close> the sum binds tighter than the
  comparison, which binds tighter than the conditional. A sample is a 32-bit float, so
  the two products are exact in double precision.\<close>

definition encodeSample :: "real \<Rightarrow> int" where
  "encodeSample x =
     (let sample = max (- 1) (min 1 x)
      in toInt32 (if 0.5 + sample < 0 then sample * 32768 else sample * 32767))"

definition writeHeader :: "nat \<Rightarrow> nat \<Rightarrow> nat \<Rightarrow> nat list \<Rightarrow> nat list" where
  "writeHeader len numOfChan rate view0 =
     (let view = setString view0 0 ''RIFF'';
          view = setUint32 view 4 (len - 8);
          view = setString view 8 ''WAVE'';
          view = setString view 12 ''fmt '';
          view = setUint32 view 16 16;
          view = setUint16 view 20 1;
          view = setUint16 view 22 numOfChan;
          view = setUint32 view 24 rate;
          view = setUint32 view 28 (rate * 2 * numOfChan);
          view = setUint16 view 32 (numOfChan * 2);
          view = setUint16 view 34 16;
          view = setString view 36 ''data''
      in setUint32 view 40 (len - 44))"

text \<open>The two nested loops of lines 525--532, carrying the view and the write offset.\<close>

definition writeFrame :: "real list list \<Rightarrow> nat \<Rightarrow> nat \<Rightarrow> nat list \<times> nat \<Rightarrow> nat list \<times> nat" where
  "writeFrame channels numOfChan i acc =
     fold (\<lambda>ch (view, offset). (setInt16 view offset (encodeSample (channels ! ch ! i)), offset + 2))
          [0 ..< numOfChan] acc"

definition writeData :: "real list list \<Rightarrow> nat \<Rightarrow> nat \<Rightarrow> nat list \<times> nat \<Rightarrow> nat list \<times> nat" where
  "writeData channels numOfChan len acc =
     fold (\<lambda>i. writeFrame channels numOfChan i) [0 ..< len] acc"

definition audioBufferToWav :: "AudioBuffer \<Rightarrow> nat list" where
  "audioBufferToWav buffer =
     (let numOfChan = numberOfChannels buffer;
          len = frames buffer * numOfChan * 2 + 44;
          view = writeHeader len numOfChan (sampleRate buffer) (replicate len 0)
      in fst (writeData (channelData buffer) numOfChan (frames buffer) (view, 44)))"

text \<open>Readers of the file format, used to state what the bytes hold.\<close>

definition getUint16 :: "nat list \<Rightarrow> nat \<Rightarrow> nat" where
  "getUint16 view off = view ! off + 256 * view ! (off + 1)"

definition getUint32 :: "nat list \<Rightarrow> nat \<Rightarrow> nat" where
  "getUint32 view off =
     view ! off + 256 * view ! (off + 1) + 65536 * view ! (off + 2)
       + 16777216 * view ! (off + 3)"

definition getInt16 :: "nat list \<Rightarrow> nat \<Rightarrow> int" where
  "getInt16 view off =
     (let u = int (getUint16 view off) in if 32768 \<le> u then u - 65536 else u)"

definition getString :: "nat list \<Rightarrow> nat \<Rightarrow> nat \<Rightarrow> string" where
  "getString view off n = map (\<lambda>i. char_of (view ! (off + i))) [0 ..< n]"

subsection \<open>stopRecordingAndDownload (lines 442--460)\<close>

definition stopRecordingAndDownload :: "engine \<Rightarrow> engine" where
  "stopRecordingAndDownload s =
     (if \<not> isRecording s then s
      else (let s1 = dispatchEvent (RecordingStateChanged False) (s\<lparr>isRecording := False\<rparr>)
            in if recordedBuffers s1 = []
               then dispatchEvent (ErrorEvent ''Nothing was recorded.'') s1
               else (let s2 = (case concatenateAudioBuffers (recordedBuffers s1) of
                                 Inl e \<Rightarrow> dispatchEvent
                                   (ErrorEvent ''Could not process recorded audio.'') s1
                               | Inr fullBuffer \<Rightarrow>
                                   s1\<lparr>downloads := downloads s1 @
                                        [(''lutox-oscillia-creation.wav'',
                                          audioBufferToWav fullBuffer)]\<rparr>)
                     in s2\<lparr>recordedBuffers := []\<rparr>)))"

section \<open>EffectsGraph: the parameter setters (lines 549--564)\<close>

definition setDistortion :: "real \<Rightarrow> engine \<Rightarrow> engine" where
  "setDistortion amount s = s\<lparr>distortionWetGain := amount\<rparr>"

definition setDelay :: "real \<Rightarrow> engine \<Rightarrow> engine" where
  "setDelay amount s = s\<lparr>delayWetGain := amount, delayFeedback := amount * 0.7\<rparr>"

definition setReverb :: "real \<Rightarrow> engine \<Rightarrow> engine" where
  "setReverb amount s = s\<lparr>reverbWetGain := amount\<rparr>"

definition setMasterVolume :: "real \<Rightarrow> engine \<Rightarrow> engine" where
  "setMasterVolume amount s = s\<lparr>masterVolume := amount\<rparr>"

section \<open>Interleavings, the claim's reading of the sample scaling, example inputs\<close>

text \<open>
  The schedule in which \<^verbatim>\<open>stop\<close> runs while \<^verbatim>\<open>play\<close> awaits the connect attempt:
  \<^verbatim>\<open>play\<close> up to its suspension point, then \<^verbatim>\<open>stop\<close>, then the end of \<^verbatim>\<open>connect\<close> with
  result \<open>r\<close>, then the rest of \<^verbatim>\<open>play\<close> with the session its promise resolved with.
\<close>

definition play_interrupted_by_stop ::
  "connectResult \<Rightarrow> bool \<Rightarrow> string option \<Rightarrow> engine \<Rightarrow> engine" where
  "play_interrupted_by_stop r fires rejected s =
     (let (a, s1) = play_begin s;
          s2 = stop s1;
          s3 = connect_done a r s2
      in case promiseAt s3 a of
           Resolved sess \<Rightarrow> play_resume fires rejected sess s3
         | Pending \<Rightarrow> s3)"

text \<open>
  What can reach the scheduler once a call has returned: the backend delivers an array
  of chunks at audio time \<open>now\<close>, or the callback of a pre-roll timer runs, which it
  does only when a timer is armed.
\<close>

datatype 'c arrival = ChunksArrive "'c list" real | TimerFires

definition arrive :: "('c \<Rightarrow> AudioBuffer option) \<Rightarrow> 'c arrival \<Rightarrow> engine \<Rightarrow> engine" where
  "arrive decodeChunk a s =
     (case a of
        ChunksArrive audioChunks now \<Rightarrow> processAudioChunks decodeChunk now audioChunks s
      | TimerFires \<Rightarrow> (if pendingTimers s = 0 then s else timerFired s))"

text \<open>
  The scaling as the specification words it, for comparison with \<open>encodeSample\<close>: the
  sample is clamped to \<open>[-1, 1]\<close>; a negative value is scaled towards \<open>-32768\<close>, a
  non-negative one towards \<open>32767\<close>.
\<close>

definition spec_encodeSample :: "real \<Rightarrow> int" where
  "spec_encodeSample x =
     (let sample = max (- 1) (min 1 x)
      in toInt32 (if sample < 0 then sample * 32768 else sample * 32767))"

text \<open>A stereo buffer of two frames at 48 kHz, a mono buffer, a stereo buffer at another
  sample rate, a mono buffer holding the one sample \<open>-1/4\<close>, and one second of stereo
  audio at 48 kHz.\<close>

definition demo_buffer :: AudioBuffer where
  "demo_buffer = \<lparr> sampleRate = 48000, frames = 2,
                    channelData = [ [0, 1 / 2], [- 1 / 4, 1] ] \<rparr>"

definition mono_buffer :: AudioBuffer where
  "mono_buffer = \<lparr> sampleRate = 48000, frames = 1, channelData = [ [1 / 2] ] \<rparr>"

definition other_rate_buffer :: AudioBuffer where
  "other_rate_buffer = \<lparr> sampleRate = 44100, frames = 1, channelData = [ [1], [- 1] ] \<rparr>"

definition quiet_negative_buffer :: AudioBuffer where
  "quiet_negative_buffer = \<lparr> sampleRate = 48000, frames = 1, channelData = [ [- 1 / 4] ] \<rparr>"

definition one_second_stereo :: AudioBuffer where
  "one_second_stereo = \<lparr> sampleRate = 48000, frames = 48000,
       channelData = [replicate 48000 0, replicate 48000 (1 / 2)] \<rparr>"

text \<open>Engines in the states the examples start from: recording a given list of buffers
  while playing; the same with an underrun pending; with three seconds recorded; in
  Fallback mode with the six players; with one prompt of weight 1 and not yet started.\<close>

definition recording_engine :: "AudioBuffer list \<Rightarrow> engine" where
  "recording_engine bs =
     new_engine\<lparr>playbackState := Playing, isRecording := True, recordedBuffers := bs\<rparr>"

definition underrun_recording_engine :: engine where
  "underrun_recording_engine =
     new_engine\<lparr>playbackState := Playing, nextStartTime := 3, isRecording := True,
                 recordedBuffers := [demo_buffer]\<rparr>"

definition three_second_engine :: engine where
  "three_second_engine =
     new_engine\<lparr>playbackState := Playing, isRecording := True,
                 recordedBuffers := [one_second_stereo, one_second_stereo, one_second_stereo]\<rparr>"

definition fallback_engine :: engine where
  "fallback_engine = initializeFallbackPlayers (new_engine\<lparr>isFallbackMode := True\<rparr>)"

definition prompted_engine :: engine where
  "prompted_engine =
     new_engine\<lparr>prompts :=
       [(''prompt-0'', \<lparr> promptId = ''prompt-0'', prompt_text = ''Funk'', prompt_weight = 1 \<rparr>)]\<rparr>"

definition demo_prompts :: "(string \<times> Prompt) list" where
  "demo_prompts =
     [(''prompt-0'', \<lparr> promptId = ''prompt-0'', prompt_text = ''Funk'', prompt_weight = 3 / 2 \<rparr>),
      (''prompt-1'', \<lparr> promptId = ''prompt-1'', prompt_text = ''Ambient'', prompt_weight = 2 / 5 \<rparr>),
      (''prompt-2'', \<lparr> promptId = ''prompt-2'', prompt_text = ''Lo-fi'', prompt_weight = 0 \<rparr>)]"

text \<open>An engine that plays and records with the next start at 7, and a decoder that
  yields the stereo buffer for chunk 0 and the mono buffer for any other chunk.\<close>

definition first_chunk_engine :: engine where
  "first_chunk_engine =
     new_engine\<lparr>playbackState := Playing, isRecording := True, nextStartTime := 7\<rparr>"

definition demo_decoder :: "nat \<Rightarrow> AudioBuffer option" where
  "demo_decoder c = (if c = 0 then Some demo_buffer else Some mono_buffer)"

section \<open>Lemmas on the recorder's concatenation\<close>

lemma copyChannels_content:
  assumes "\<forall>ch \<in> set chs. ch < numberOfChannels b \<and> ch < numberOfChannels r"
    and "distinct chs"
  shows "\<exists>r'. copyChannels b chs off r = Inr r'
            \<and> sampleRate r' = sampleRate r \<and> frames r' = frames r
            \<and> length (channelData r') = length (channelData r)
            \<and> (\<forall>ch < length (channelData r). channelData r' ! ch =
                 (if ch \<in> set chs
                  then take off (channelData r ! ch)
                       @ take (min (length (channelData r ! ch) - off) (length (channelData b ! ch)))
                              (channelData b ! ch)
                       @ drop (off + min (length (channelData r ! ch) - off)
                                         (length (channelData b ! ch))) (channelData r ! ch)
                  else channelData r ! ch))"
  using assms
proof (induction chs arbitrary: r)
  case Nil
  then show ?case by simp
next
  case (Cons c chs)
  let ?new = "take off (channelData r ! c)
       @ take (min (length (channelData r ! c) - off) (length (channelData b ! c))) (channelData b ! c)
       @ drop (off + min (length (channelData r ! c) - off) (length (channelData b ! c)))
              (channelData r ! c)"
  let ?r1 = "r\<lparr>channelData := (channelData r)[c := ?new]\<rparr>"
  from Cons.prems have c: "c < numberOfChannels b" "c < numberOfChannels r" "c \<notin> set chs"
    by auto
  have step: "copyChannels b (c # chs) off r = copyChannels b chs off ?r1"
    using c by (simp add: getChannelData_def copyToChannel_def Let_def)
  have pre: "\<forall>ch \<in> set chs. ch < numberOfChannels b \<and> ch < numberOfChannels ?r1"
    using Cons.prems by (simp add: numberOfChannels_def)
  from Cons.IH [OF pre] Cons.prems(2)
  obtain r' where r': "copyChannels b chs off ?r1 = Inr r'"
    "sampleRate r' = sampleRate ?r1" "frames r' = frames ?r1"
    "length (channelData r') = length (channelData ?r1)"
    "\<forall>ch < length (channelData ?r1). channelData r' ! ch =
        (if ch \<in> set chs
         then take off (channelData ?r1 ! ch)
              @ take (min (length (channelData ?r1 ! ch) - off) (length (channelData b ! ch)))
                     (channelData b ! ch)
              @ drop (off + min (length (channelData ?r1 ! ch) - off)
                                (length (channelData b ! ch))) (channelData ?r1 ! ch)
         else channelData ?r1 ! ch)"
    by auto
  have "\<forall>ch < length (channelData r). channelData r' ! ch =
          (if ch \<in> set (c # chs)
           then take off (channelData r ! ch)
                @ take (min (length (channelData r ! ch) - off) (length (channelData b ! ch)))
                       (channelData b ! ch)
                @ drop (off + min (length (channelData r ! ch) - off)
                                  (length (channelData b ! ch))) (channelData r ! ch)
           else channelData r ! ch)"
  proof (intro allI impI)
    fix ch assume ch: "ch < length (channelData r)"
    show "channelData r' ! ch =
          (if ch \<in> set (c # chs)
           then take off (channelData r ! ch)
                @ take (min (length (channelData r ! ch) - off) (length (channelData b ! ch)))
                       (channelData b ! ch)
                @ drop (off + min (length (channelData r ! ch) - off)
                                  (length (channelData b ! ch))) (channelData r ! ch)
           else channelData r ! ch)"
    proof (cases "ch = c")
      case True
      with r'(5) ch c(3) show ?thesis by simp
    next
      case False
      with r'(5) ch show ?thesis by simp
    qed
  qed
  with r' step show ?case by simp
qed


lemma copyChannels_whole:
  assumes nb: "nChannels \<le> numberOfChannels b" and nr: "nChannels \<le> numberOfChannels r"
    and lb: "\<forall>ch < nChannels. length (channelData b ! ch) = frames b"
    and lr: "\<forall>ch < nChannels. off + frames b \<le> length (channelData r ! ch)"
  shows "\<exists>r'. copyChannels b [0 ..< nChannels] off r = Inr r'
            \<and> sampleRate r' = sampleRate r \<and> frames r' = frames r
            \<and> length (channelData r') = length (channelData r)
            \<and> (\<forall>ch < length (channelData r). channelData r' ! ch =
                 (if ch < nChannels
                  then take off (channelData r ! ch) @ channelData b ! ch
                       @ drop (off + frames b) (channelData r ! ch)
                  else channelData r ! ch))"
proof -
  have "\<forall>ch \<in> set [0 ..< nChannels]. ch < numberOfChannels b \<and> ch < numberOfChannels r"
    using nb nr by auto
  from copyChannels_content [OF this, of off]
  obtain r' where r': "copyChannels b [0 ..< nChannels] off r = Inr r'"
    "sampleRate r' = sampleRate r" "frames r' = frames r"
    "length (channelData r') = length (channelData r)"
    "\<forall>ch < length (channelData r). channelData r' ! ch =
        (if ch \<in> set [0 ..< nChannels]
         then take off (channelData r ! ch)
              @ take (min (length (channelData r ! ch) - off) (length (channelData b ! ch)))
                     (channelData b ! ch)
              @ drop (off + min (length (channelData r ! ch) - off)
                                (length (channelData b ! ch))) (channelData r ! ch)
         else channelData r ! ch)"
    by auto
  have "\<forall>ch < length (channelData r). channelData r' ! ch =
          (if ch < nChannels
           then take off (channelData r ! ch) @ channelData b ! ch
                @ drop (off + frames b) (channelData r ! ch)
           else channelData r ! ch)"
  proof (intro allI impI)
    fix ch assume ch: "ch < length (channelData r)"
    show "channelData r' ! ch =
          (if ch < nChannels
           then take off (channelData r ! ch) @ channelData b ! ch
                @ drop (off + frames b) (channelData r ! ch)
           else channelData r ! ch)"
    proof (cases "ch < nChannels")
      case True
      with lb lr have "length (channelData b ! ch) = frames b"
        "off + frames b \<le> length (channelData r ! ch)" by auto
      then have "min (length (channelData r ! ch) - off) (length (channelData b ! ch)) = frames b"
        by simp
      with r'(5) ch True \<open>length (channelData b ! ch) = frames b\<close> show ?thesis by simp
    next
      case False
      with r'(5) ch show ?thesis by simp
    qed
  qed
  with r' show ?thesis by simp
qed

lemma copyBuffers_content:
  assumes "\<forall>b \<in> set bs. nChannels \<le> numberOfChannels b
                        \<and> (\<forall>ch < nChannels. length (channelData b ! ch) = frames b)"
    and "numberOfChannels r = nChannels"
    and "\<forall>ch < nChannels. off + sum_list (map frames bs) \<le> length (channelData r ! ch)"
  shows "\<exists>r'. copyBuffers nChannels bs off r = Inr r'
            \<and> sampleRate r' = sampleRate r \<and> frames r' = frames r
            \<and> length (channelData r') = nChannels
            \<and> (\<forall>ch < nChannels. channelData r' ! ch =
                  take off (channelData r ! ch) @ concat (map (\<lambda>b. channelData b ! ch) bs)
                  @ drop (off + sum_list (map frames bs)) (channelData r ! ch))"
  using assms
proof (induction bs arbitrary: off r)
  case Nil
  then show ?case by (simp add: numberOfChannels_def)
next
  case (Cons b bs)
  have nr: "length (channelData r) = nChannels"
    using Cons.prems(2) by (simp add: numberOfChannels_def)
  have b: "nChannels \<le> numberOfChannels b"
    "\<forall>ch < nChannels. length (channelData b ! ch) = frames b"
    using Cons.prems(1) by auto
  have lr: "\<forall>ch < nChannels. off + frames b \<le> length (channelData r ! ch)"
    using Cons.prems(3) by auto
  from copyChannels_whole [OF b(1) _ b(2) lr] Cons.prems(2)
  obtain r1 where r1: "copyChannels b [0 ..< nChannels] off r = Inr r1"
    "sampleRate r1 = sampleRate r" "frames r1 = frames r"
    "length (channelData r1) = length (channelData r)"
    "\<forall>ch < length (channelData r). channelData r1 ! ch =
        (if ch < nChannels
         then take off (channelData r ! ch) @ channelData b ! ch
              @ drop (off + frames b) (channelData r ! ch)
         else channelData r ! ch)"
    by auto
  have r1ch: "\<forall>ch < nChannels. channelData r1 ! ch =
      take off (channelData r ! ch) @ channelData b ! ch
        @ drop (off + frames b) (channelData r ! ch)"
    using r1(5) nr by simp
  have p1: "\<forall>b \<in> set bs. nChannels \<le> numberOfChannels b
                        \<and> (\<forall>ch < nChannels. length (channelData b ! ch) = frames b)"
    using Cons.prems(1) by simp
  have p2: "numberOfChannels r1 = nChannels"
    using r1(4) nr by (simp add: numberOfChannels_def)
  have p3: "\<forall>ch < nChannels. (off + frames b) + sum_list (map frames bs)
                \<le> length (channelData r1 ! ch)"
  proof (intro allI impI)
    fix ch assume ch: "ch < nChannels"
    with Cons.prems(3) have "off + (frames b + sum_list (map frames bs))
        \<le> length (channelData r ! ch)" by simp
    with r1ch b(2) ch show "(off + frames b) + sum_list (map frames bs)
        \<le> length (channelData r1 ! ch)" by simp
  qed
  from Cons.IH [OF p1 p2 p3]
  obtain r' where r': "copyBuffers nChannels bs (off + frames b) r1 = Inr r'"
    "sampleRate r' = sampleRate r1" "frames r' = frames r1"
    "length (channelData r') = nChannels"
    "\<forall>ch < nChannels. channelData r' ! ch =
        take (off + frames b) (channelData r1 ! ch) @ concat (map (\<lambda>b. channelData b ! ch) bs)
        @ drop ((off + frames b) + sum_list (map frames bs)) (channelData r1 ! ch)"
    by auto
  have "\<forall>ch < nChannels. channelData r' ! ch =
          take off (channelData r ! ch) @ concat (map (\<lambda>b. channelData b ! ch) (b # bs))
          @ drop (off + sum_list (map frames (b # bs))) (channelData r ! ch)"
  proof (intro allI impI)
    fix ch assume ch: "ch < nChannels"
    have lenb: "length (channelData b ! ch) = frames b" using b(2) ch by simp
    have lenr: "off + (frames b + sum_list (map frames bs)) \<le> length (channelData r ! ch)"
      using Cons.prems(3) ch by simp
    have r1c: "channelData r1 ! ch = take off (channelData r ! ch) @ channelData b ! ch
        @ drop (off + frames b) (channelData r ! ch)"
      using r1ch ch by simp
    have t: "take (off + frames b) (channelData r1 ! ch)
              = take off (channelData r ! ch) @ channelData b ! ch"
      using lenb lenr by (simp add: r1c)
    have d: "drop ((off + frames b) + sum_list (map frames bs)) (channelData r1 ! ch)
              = drop (off + (frames b + sum_list (map frames bs))) (channelData r ! ch)"
      using lenb lenr by (simp add: r1c) (metis add.assoc add.commute)
    from r'(5) ch t d show "channelData r' ! ch =
          take off (channelData r ! ch) @ concat (map (\<lambda>b. channelData b ! ch) (b # bs))
          @ drop (off + sum_list (map frames (b # bs))) (channelData r ! ch)"
      by simp
  qed
  with r' r1 show ?case by simp
qed


lemma concatenate_ok:
  assumes ne: "bs \<noteq> []"
    and wf: "\<forall>b \<in> set bs. wf_buffer b \<and> numberOfChannels (hd bs) \<le> numberOfChannels b"
  shows "concatenateAudioBuffers bs =
           Inr \<lparr> sampleRate = sampleRate (hd bs), frames = sum_list (map frames bs),
                 channelData = map (\<lambda>ch. concat (map (\<lambda>b. channelData b ! ch) bs))
                                   [0 ..< numberOfChannels (hd bs)] \<rparr>"
proof -
  from ne obtain b0 rest where bs: "bs = b0 # rest" by (cases bs) auto
  let ?nc = "numberOfChannels b0"
  let ?total = "sum_list (map frames bs)"
  let ?r = "\<lparr> sampleRate = sampleRate b0, frames = ?total,
              channelData = replicate ?nc (replicate ?total (0::real)) \<rparr>"
  have b0: "wf_buffer b0" using wf bs by simp
  then have pos: "0 < ?nc" "0 < frames b0" by (simp_all add: wf_buffer_def)
  then have tpos: "0 < ?total" using bs by simp
  have cb: "createBuffer ?nc ?total (sampleRate b0) = Inr ?r"
    using pos by (simp add: createBuffer_def bs)
  have p1: "\<forall>b \<in> set bs. ?nc \<le> numberOfChannels b
                \<and> (\<forall>ch < ?nc. length (channelData b ! ch) = frames b)"
  proof
    fix b assume b: "b \<in> set bs"
    with wf bs have "wf_buffer b" "?nc \<le> numberOfChannels b" by auto
    then show "?nc \<le> numberOfChannels b
                \<and> (\<forall>ch < ?nc. length (channelData b ! ch) = frames b)"
      by (auto simp: wf_buffer_def list_all_length numberOfChannels_def)
  qed
  have p2: "numberOfChannels ?r = ?nc" by (simp add: numberOfChannels_def)
  have p3: "\<forall>ch < ?nc. 0 + ?total \<le> length (channelData ?r ! ch)" by simp
  from copyBuffers_content [OF p1 p2 p3]
  obtain r' where r': "copyBuffers ?nc bs 0 ?r = Inr r'"
    "sampleRate r' = sampleRate b0" "frames r' = ?total"
    "length (channelData r') = ?nc"
    "\<forall>ch < ?nc. channelData r' ! ch = concat (map (\<lambda>b. channelData b ! ch) bs)"
    by auto
  have "channelData r' = map (\<lambda>ch. concat (map (\<lambda>b. channelData b ! ch) bs)) [0 ..< ?nc]"
    using r'(4,5) by (intro nth_equalityI) simp_all
  with r'(2,3) have "r' = \<lparr> sampleRate = sampleRate b0, frames = ?total,
        channelData = map (\<lambda>ch. concat (map (\<lambda>b. channelData b ! ch) bs)) [0 ..< ?nc] \<rparr>"
    by (cases r') simp
  with r'(1) cb show ?thesis
    by (simp add: concatenateAudioBuffers_def bs)
qed

lemma copyChannels_missing:
  "c \<in> set chs \<Longrightarrow> numberOfChannels b \<le> c \<Longrightarrow> isl (copyChannels b chs off r)"
  by (induction chs arbitrary: r) (auto simp: getChannelData_def split: sum.splits)

lemma copyBuffers_missing:
  "\<exists>b \<in> set bs. numberOfChannels b < nChannels \<Longrightarrow> isl (copyBuffers nChannels bs off r)"
proof (induction bs arbitrary: off r)
  case Nil
  then show ?case by simp
next
  case (Cons b bs)
  show ?case
  proof (cases "numberOfChannels b < nChannels")
    case True
    then have "isl (copyChannels b [0 ..< nChannels] off r)"
      by (intro copyChannels_missing [of "numberOfChannels b"]) simp_all
    then show ?thesis by (auto split: sum.splits)
  next
    case False
    with Cons.prems have "\<exists>b \<in> set bs. numberOfChannels b < nChannels" by simp
    from Cons.IH [OF this] show ?thesis by (auto split: sum.splits)
  qed
qed

lemma concatenate_missing_channel:
  "\<exists>b \<in> set bs. numberOfChannels b < numberOfChannels (hd bs) \<Longrightarrow>
     isl (concatenateAudioBuffers bs)"
  using copyBuffers_missing [of bs "numberOfChannels (hd bs)"]
  by (cases bs) (auto simp: concatenateAudioBuffers_def Let_def split: sum.splits)

section \<open>Lemmas on the bytes of the WAV file\<close>

lemma le16_decode: "x mod 256 + 256 * (x div 256 mod 256) = x mod 65536" for x :: nat
  using mod_mult2_eq [of x 256 256] by simp

lemma le32_decode:
  "x mod 256 + 256 * (x div 256 mod 256) + 65536 * (x div 65536 mod 256)
     + 16777216 * (x div 16777216 mod 256) = x mod 4294967296" for x :: nat
  using mod_mult2_eq [of x 256 256] mod_mult2_eq [of x 65536 256]
    mod_mult2_eq [of x 16777216 256]
  by simp

lemma length_setUint8 [simp]: "length (setUint8 v off x) = length v"
  by (simp add: setUint8_def)

lemma length_setUint16 [simp]: "length (setUint16 v off x) = length v"
  by (simp add: setUint16_def)

lemma length_setUint32 [simp]: "length (setUint32 v off x) = length v"
  by (simp add: setUint32_def)

lemma length_setInt16 [simp]: "length (setInt16 v off x) = length v"
  by (simp add: setInt16_def)

lemma length_setString [simp]: "length (setString v off str) = length v"
  by (induction str arbitrary: v off) simp_all

lemma length_writeHeader [simp]: "length (writeHeader len c r v) = length v"
  by (simp add: writeHeader_def Let_def)

lemma setInt16_nth_other: "k < off \<Longrightarrow> setInt16 v off x ! k = v ! k"
  by (simp add: setInt16_def setUint16_def)



lemma setUint8_nth_other: "k \<noteq> off \<Longrightarrow> setUint8 v off x ! k = v ! k"
  by (simp add: setUint8_def)

lemma setUint16_nth_other: "k < off \<or> off + 2 \<le> k \<Longrightarrow> setUint16 v off x ! k = v ! k"
  by (auto simp: setUint16_def)

lemma setUint32_nth_other: "k < off \<or> off + 4 \<le> k \<Longrightarrow> setUint32 v off x ! k = v ! k"
  by (auto simp: setUint32_def)

lemma setString_nth_other:
  "k < off \<or> off + length str \<le> k \<Longrightarrow> setString v off str ! k = v ! k"
  by (induction str arbitrary: v off) (auto simp: setUint8_nth_other)

lemma setString_nth_own:
  "off + length str \<le> length v \<Longrightarrow> off \<le> k \<Longrightarrow> k < off + length str \<Longrightarrow>
     setString v off str ! k = of_char (str ! (k - off))"
proof (induction str arbitrary: v off)
  case Nil
  then show ?case by simp
next
  case (Cons c cs)
  show ?case
  proof (cases "k = off")
    case True
    have "of_char c mod 256 = (of_char c :: nat)"
      by (simp add: of_char_mod_256)
    with True Cons.prems show ?thesis
      by (simp add: setString_nth_other setUint8_def)
  next
    case False
    with Cons.prems have "setString (setUint8 v off (of_char c)) (off + 1) cs ! k
        = of_char (cs ! (k - (off + 1)))"
      by (intro Cons.IH) simp_all
    with False Cons.prems show ?thesis by (simp add: nth_Cons')
  qed
qed

lemma getString_setString:
  "n = length str \<Longrightarrow> off + n \<le> length v \<Longrightarrow> getString (setString v off str) off n = str"
  by (intro nth_equalityI) (simp_all add: getString_def setString_nth_own)

lemma getUint16_setUint16:
  "off + 1 < length v \<Longrightarrow> getUint16 (setUint16 v off x) off = x mod 65536"
  by (simp add: getUint16_def setUint16_def le16_decode)

lemma getUint32_setUint32:
  "off + 3 < length v \<Longrightarrow> getUint32 (setUint32 v off x) off = x mod 4294967296"
  by (simp add: getUint32_def setUint32_def le32_decode)

lemma getUint32_frame:
  "off + 4 \<le> off' \<Longrightarrow> getUint32 (setUint32 v off' x) off = getUint32 v off"
  "off' + 4 \<le> off \<Longrightarrow> getUint32 (setUint32 v off' x) off = getUint32 v off"
  "off + 4 \<le> off' \<Longrightarrow> getUint32 (setUint16 v off' x) off = getUint32 v off"
  "off' + 2 \<le> off \<Longrightarrow> getUint32 (setUint16 v off' x) off = getUint32 v off"
  "off + 4 \<le> off' \<Longrightarrow> getUint32 (setString v off' str) off = getUint32 v off"
  "off' + length str \<le> off \<Longrightarrow> getUint32 (setString v off' str) off = getUint32 v off"
  by (simp_all add: getUint32_def setUint32_nth_other setUint16_nth_other setString_nth_other)

lemma getUint16_frame:
  "off + 2 \<le> off' \<Longrightarrow> getUint16 (setUint32 v off' x) off = getUint16 v off"
  "off' + 4 \<le> off \<Longrightarrow> getUint16 (setUint32 v off' x) off = getUint16 v off"
  "off + 2 \<le> off' \<Longrightarrow> getUint16 (setUint16 v off' x) off = getUint16 v off"
  "off' + 2 \<le> off \<Longrightarrow> getUint16 (setUint16 v off' x) off = getUint16 v off"
  "off + 2 \<le> off' \<Longrightarrow> getUint16 (setString v off' str) off = getUint16 v off"
  "off' + length str \<le> off \<Longrightarrow> getUint16 (setString v off' str) off = getUint16 v off"
  by (simp_all add: getUint16_def setUint32_nth_other setUint16_nth_other setString_nth_other)

lemma getString_frame:
  "off + n \<le> off' \<Longrightarrow> getString (setUint32 v off' x) off n = getString v off n"
  "off' + 4 \<le> off \<Longrightarrow> getString (setUint32 v off' x) off n = getString v off n"
  "off + n \<le> off' \<Longrightarrow> getString (setUint16 v off' x) off n = getString v off n"
  "off' + 2 \<le> off \<Longrightarrow> getString (setUint16 v off' x) off n = getString v off n"
  "off + n \<le> off' \<Longrightarrow> getString (setString v off' str) off n = getString v off n"
  "off' + length str \<le> off \<Longrightarrow> getString (setString v off' str) off n = getString v off n"
  by (simp_all add: getString_def setUint32_nth_other setUint16_nth_other setString_nth_other)

lemma writeHeader_fields:
  assumes "44 \<le> length v"
  shows "getString (writeHeader len c r v) 0 4 = ''RIFF''"
    and "getUint32 (writeHeader len c r v) 4 = (len - 8) mod 4294967296"
    and "getString (writeHeader len c r v) 8 4 = ''WAVE''"
    and "getString (writeHeader len c r v) 12 4 = ''fmt ''"
    and "getUint32 (writeHeader len c r v) 16 = 16"
    and "getUint16 (writeHeader len c r v) 20 = 1"
    and "getUint16 (writeHeader len c r v) 22 = c mod 65536"
    and "getUint32 (writeHeader len c r v) 24 = r mod 4294967296"
    and "getUint32 (writeHeader len c r v) 28 = (r * 2 * c) mod 4294967296"
    and "getUint16 (writeHeader len c r v) 32 = (c * 2) mod 65536"
    and "getUint16 (writeHeader len c r v) 34 = 16"
    and "getString (writeHeader len c r v) 36 4 = ''data''"
    and "getUint32 (writeHeader len c r v) 40 = (len - 44) mod 4294967296"
  using assms
  by (simp_all add: writeHeader_def Let_def getString_frame getUint32_frame getUint16_frame
      getString_setString getUint32_setUint32 getUint16_setUint16 del: setString.simps)


lemma writeFrame_inv:
  assumes "length (fst acc) = n" and "44 \<le> snd acc" and "\<forall>k < 44. fst acc ! k = v ! k"
  shows "length (fst (writeFrame channels numOfChan i acc)) = n
       \<and> 44 \<le> snd (writeFrame channels numOfChan i acc)
       \<and> (\<forall>k < 44. fst (writeFrame channels numOfChan i acc) ! k = v ! k)"
  unfolding writeFrame_def
  by (rule fold_invariant [where Q = "\<lambda>_. True"])
     (use assms in \<open>auto simp: setInt16_nth_other split: prod.splits\<close>)

lemma writeData_inv:
  assumes "length (fst acc) = n" and "44 \<le> snd acc" and "\<forall>k < 44. fst acc ! k = v ! k"
  shows "length (fst (writeData channels numOfChan len acc)) = n
       \<and> 44 \<le> snd (writeData channels numOfChan len acc)
       \<and> (\<forall>k < 44. fst (writeData channels numOfChan len acc) ! k = v ! k)"
  unfolding writeData_def
proof (rule fold_invariant [where Q = "\<lambda>_. True"
      and P = "\<lambda>a. length (fst a) = n \<and> 44 \<le> snd a \<and> (\<forall>k < 44. fst a ! k = v ! k)"])
  show "length (fst acc) = n \<and> 44 \<le> snd acc \<and> (\<forall>k < 44. fst acc ! k = v ! k)"
    using assms by simp
next
  fix i :: nat and a :: "nat list \<times> nat"
  assume "length (fst a) = n \<and> 44 \<le> snd a \<and> (\<forall>k < 44. fst a ! k = v ! k)"
  then show "length (fst (writeFrame channels numOfChan i a)) = n
       \<and> 44 \<le> snd (writeFrame channels numOfChan i a)
       \<and> (\<forall>k < 44. fst (writeFrame channels numOfChan i a) ! k = v ! k)"
    by (intro writeFrame_inv) simp_all
qed simp

lemma length_audioBufferToWav:
  "length (audioBufferToWav b) = frames b * numberOfChannels b * 2 + 44"
  using writeData_inv [of "(writeHeader (frames b * numberOfChannels b * 2 + 44)
        (numberOfChannels b) (sampleRate b) (replicate (frames b * numberOfChannels b * 2 + 44) 0), 44)"
      "frames b * numberOfChannels b * 2 + 44"
      "writeHeader (frames b * numberOfChannels b * 2 + 44)
        (numberOfChannels b) (sampleRate b) (replicate (frames b * numberOfChannels b * 2 + 44) 0)"
      "channelData b" "numberOfChannels b" "frames b"]
  by (simp add: audioBufferToWav_def Let_def)

lemma audioBufferToWav_header_nth:
  "k < 44 \<Longrightarrow> audioBufferToWav b ! k =
     writeHeader (frames b * numberOfChannels b * 2 + 44) (numberOfChannels b) (sampleRate b)
       (replicate (frames b * numberOfChannels b * 2 + 44) 0) ! k"
  using writeData_inv [of "(writeHeader (frames b * numberOfChannels b * 2 + 44)
        (numberOfChannels b) (sampleRate b) (replicate (frames b * numberOfChannels b * 2 + 44) 0), 44)"
      "frames b * numberOfChannels b * 2 + 44"
      "writeHeader (frames b * numberOfChannels b * 2 + 44)
        (numberOfChannels b) (sampleRate b) (replicate (frames b * numberOfChannels b * 2 + 44) 0)"
      "channelData b" "numberOfChannels b" "frames b"]
  by (simp add: audioBufferToWav_def Let_def)

lemma audioBufferToWav_fields:
  fixes b :: AudioBuffer
  defines "len \<equiv> frames b * numberOfChannels b * 2 + 44"
  shows "getString (audioBufferToWav b) 0 4 = ''RIFF''"
    and "getUint32 (audioBufferToWav b) 4 = (len - 8) mod 4294967296"
    and "getString (audioBufferToWav b) 8 4 = ''WAVE''"
    and "getString (audioBufferToWav b) 12 4 = ''fmt ''"
    and "getUint32 (audioBufferToWav b) 16 = 16"
    and "getUint16 (audioBufferToWav b) 20 = 1"
    and "getUint16 (audioBufferToWav b) 22 = numberOfChannels b mod 65536"
    and "getUint32 (audioBufferToWav b) 24 = sampleRate b mod 4294967296"
    and "getUint32 (audioBufferToWav b) 28 = (sampleRate b * 2 * numberOfChannels b) mod 4294967296"
    and "getUint16 (audioBufferToWav b) 32 = (numberOfChannels b * 2) mod 65536"
    and "getUint16 (audioBufferToWav b) 34 = 16"
    and "getString (audioBufferToWav b) 36 4 = ''data''"
    and "getUint32 (audioBufferToWav b) 40 = (len - 44) mod 4294967296"
proof -
  let ?h = "writeHeader len (numberOfChannels b) (sampleRate b) (replicate len 0)"
  have len44: "44 \<le> length (replicate len (0::nat))" by (simp add: len_def)
  have s: "\<And>off. off + 4 \<le> 44 \<Longrightarrow> getString (audioBufferToWav b) off 4 = getString ?h off 4"
    by (simp add: getString_def audioBufferToWav_header_nth len_def)
  have u32: "\<And>off. off + 4 \<le> 44 \<Longrightarrow> getUint32 (audioBufferToWav b) off = getUint32 ?h off"
    by (simp add: getUint32_def audioBufferToWav_header_nth len_def)
  have u16: "\<And>off. off + 2 \<le> 44 \<Longrightarrow> getUint16 (audioBufferToWav b) off = getUint16 ?h off"
    by (simp add: getUint16_def audioBufferToWav_header_nth len_def)
  note f = writeHeader_fields [OF len44, of len "numberOfChannels b" "sampleRate b"]
  show "getString (audioBufferToWav b) 0 4 = ''RIFF''" using f(1) by (simp add: s)
  show "getUint32 (audioBufferToWav b) 4 = (len - 8) mod 4294967296" using f(2) by (simp add: u32)
  show "getString (audioBufferToWav b) 8 4 = ''WAVE''" using f(3) by (simp add: s)
  show "getString (audioBufferToWav b) 12 4 = ''fmt ''" using f(4) by (simp add: s)
  show "getUint32 (audioBufferToWav b) 16 = 16" using f(5) by (simp add: u32)
  show "getUint16 (audioBufferToWav b) 20 = 1" using f(6) by (simp add: u16)
  show "getUint16 (audioBufferToWav b) 22 = numberOfChannels b mod 65536"
    using f(7) by (simp add: u16)
  show "getUint32 (audioBufferToWav b) 24 = sampleRate b mod 4294967296"
    using f(8) by (simp add: u32)
  show "getUint32 (audioBufferToWav b) 28 = (sampleRate b * 2 * numberOfChannels b) mod 4294967296"
    using f(9) by (simp add: u32)
  show "getUint16 (audioBufferToWav b) 32 = (numberOfChannels b * 2) mod 65536"
    using f(10) by (simp add: u16)
  show "getUint16 (audioBufferToWav b) 34 = 16" using f(11) by (simp add: u16)
  show "getString (audioBufferToWav b) 36 4 = ''data''" using f(12) by (simp add: s)
  show "getUint32 (audioBufferToWav b) 40 = (len - 44) mod 4294967296"
    using f(13) by (simp add: u32)
qed

section \<open>Lemmas on the samples in the WAV file\<close>

lemma mod_wrap_negative:
  fixes x m :: int
  assumes "- m \<le> x" and "x < 0"
  shows "x mod m = x + m"
proof -
  have "0 \<le> x + m" "x + m < m" using assms by simp_all
  then have "(x + m) mod m = x + m" by (rule mod_pos_pos_trivial)
  then show ?thesis by simp
qed

lemma toInt32_small:
  fixes t :: int
  assumes "- 32768 \<le> t" and "t \<le> 32767"
  shows "(let m = t mod 4294967296 in if 2147483648 \<le> m then m - 4294967296 else m) = t"
proof (cases "t < 0")
  case True
  with assms have "t mod 4294967296 = t + 4294967296"
    by (intro mod_wrap_negative) simp_all
  with True assms show ?thesis by (simp add: Let_def)
next
  case False
  with assms have "t mod 4294967296 = t" by simp
  with False assms show ?thesis by (simp add: Let_def)
qed

lemma toInt32_range:
  assumes "- 32768 \<le> y" and "y \<le> 32767"
  shows "- 32768 \<le> toInt32 y \<and> toInt32 y \<le> 32767"
proof -
  define t where "t = (if y < 0 then \<lceil>y\<rceil> else \<lfloor>y\<rfloor>)"
  have lo: "- 32768 \<le> t"
    using assms by (auto simp: t_def le_ceiling_iff le_floor_iff)
  have hi: "t \<le> 32767"
    using assms by (auto simp: t_def ceiling_le_iff floor_le_iff)
  have "toInt32 y = (let m = t mod 4294967296 in if 2147483648 \<le> m then m - 4294967296 else m)"
    by (simp add: toInt32_def t_def Let_def)
  with toInt32_small [OF lo hi] lo hi show ?thesis by simp
qed

lemma encodeSample_range: "- 32768 \<le> encodeSample x \<and> encodeSample x \<le> 32767"
proof -
  define sample where "sample = max (- 1) (min 1 x)"
  have r: "- 1 \<le> sample" "sample \<le> 1" by (simp_all add: sample_def)
  have e: "encodeSample x =
      toInt32 (if 0.5 + sample < 0 then sample * 32768 else sample * 32767)"
    unfolding encodeSample_def sample_def Let_def ..
  have "- 32768 \<le> (if 0.5 + sample < 0 then sample * 32768 else sample * 32767)"
    using r by auto
  moreover have "(if 0.5 + sample < 0 then sample * 32768 else sample * 32767) \<le> 32767"
    using r by auto
  ultimately show ?thesis unfolding e by (rule toInt32_range)
qed

lemma getInt16_setInt16:
  assumes "off + 1 < length v" and "- 32768 \<le> x" and "x \<le> 32767"
  shows "getInt16 (setInt16 v off x) off = x"
proof -
  have "nat (x mod 65536) mod 65536 = nat (x mod 65536)"
    by (simp add: nat_less_iff)
  then have u: "getUint16 (setInt16 v off x) off = nat (x mod 65536)"
    using assms(1) by (simp add: setInt16_def getUint16_setUint16)
  show ?thesis
  proof (cases "x < 0")
    case True
    with assms have "x mod 65536 = x + 65536" by (intro mod_wrap_negative) simp_all
    with True assms show ?thesis by (simp add: getInt16_def u Let_def)
  next
    case False
    with assms have "x mod 65536 = x" by simp
    with False assms show ?thesis by (simp add: getInt16_def u Let_def)
  qed
qed

lemma getUint16_setInt16:
  "off + 1 < length v \<Longrightarrow> getUint16 (setInt16 v off x) off = nat (x mod 65536)"
proof -
  assume a: "off + 1 < length v"
  have "nat (x mod 65536) mod 65536 = nat (x mod 65536)"
    by (simp add: nat_less_iff)
  with a show ?thesis by (simp add: setInt16_def getUint16_setUint16)
qed

lemma setInt16_nth_outside: "k < off \<or> off + 2 \<le> k \<Longrightarrow> setInt16 v off x ! k = v ! k"
  by (simp add: setInt16_def setUint16_nth_other)

lemma getUint16_setInt16_below:
  "p + 2 \<le> off \<Longrightarrow> getUint16 (setInt16 v off x) p = getUint16 v p"
  by (simp add: getUint16_def setInt16_nth_outside)

lemma sample_loop:
  fixes enc :: "nat \<Rightarrow> int"
  shows "snd (fold (\<lambda>ch (view, offset). (setInt16 view offset (enc ch), offset + 2))
                [0 ..< n] (view, off)) = off + 2 * n
       \<and> length (fst (fold (\<lambda>ch (view, offset). (setInt16 view offset (enc ch), offset + 2))
                [0 ..< n] (view, off))) = length view
       \<and> (\<forall>k. k < off \<or> off + 2 * n \<le> k \<longrightarrow>
             fst (fold (\<lambda>ch (view, offset). (setInt16 view offset (enc ch), offset + 2))
                [0 ..< n] (view, off)) ! k = view ! k)
       \<and> (off + 2 * n \<le> length view \<longrightarrow>
            (\<forall>ch < n. getUint16
               (fst (fold (\<lambda>ch (view, offset). (setInt16 view offset (enc ch), offset + 2))
                  [0 ..< n] (view, off))) (off + 2 * ch) = nat (enc ch mod 65536)))"
proof (induction n)
  case 0
  show ?case by simp
next
  case (Suc n)
  let ?W = "\<lambda>m. fold (\<lambda>ch (view, offset). (setInt16 view offset (enc ch), offset + 2))
                [0 ..< m] (view, off)"
  from Suc.IH have s: "snd (?W n) = off + 2 * n"
    and l: "length (fst (?W n)) = length view"
    and f: "\<And>k. k < off \<or> off + 2 * n \<le> k \<Longrightarrow> fst (?W n) ! k = view ! k"
    and c: "\<And>ch. off + 2 * n \<le> length view \<Longrightarrow> ch < n \<Longrightarrow>
              getUint16 (fst (?W n)) (off + 2 * ch) = nat (enc ch mod 65536)"
    by blast+
  have step: "?W (Suc n) = (setInt16 (fst (?W n)) (off + 2 * n) (enc n), off + 2 * n + 2)"
    using s by (simp add: split_def)
  have 1: "snd (?W (Suc n)) = off + 2 * Suc n" unfolding step by simp
  have 2: "length (fst (?W (Suc n))) = length view" using l unfolding step by simp
  have 3: "fst (?W (Suc n)) ! k = view ! k" if "k < off \<or> off + 2 * Suc n \<le> k" for k
  proof -
    from that have "k < off + 2 * n \<or> off + 2 * n + 2 \<le> k" by auto
    then have "fst (?W (Suc n)) ! k = fst (?W n) ! k"
      unfolding step by (simp add: setInt16_nth_outside)
    moreover from that have "k < off \<or> off + 2 * n \<le> k" by auto
    ultimately show ?thesis using f by simp
  qed
  have 4: "getUint16 (fst (?W (Suc n))) (off + 2 * ch) = nat (enc ch mod 65536)"
    if fit: "off + 2 * Suc n \<le> length view" and ch: "ch < Suc n" for ch
  proof (cases "ch = n")
    case True
    from fit l have "off + 2 * n + 1 < length (fst (?W n))" by simp
    then show ?thesis
      unfolding step True by (simp add: getUint16_setInt16)
  next
    case False
    with ch have lt: "ch < n" by simp
    then have "off + 2 * ch + 2 \<le> off + 2 * n" by simp
    then have "getUint16 (fst (?W (Suc n))) (off + 2 * ch) = getUint16 (fst (?W n)) (off + 2 * ch)"
      unfolding step by (simp add: getUint16_setInt16_below)
    moreover from fit have "off + 2 * n \<le> length view" by simp
    ultimately show ?thesis using c lt by simp
  qed
  from 1 2 3 4 show ?case by blast
qed

lemma writeFrame_loop:
  "snd (writeFrame channels nc i (view, off)) = off + 2 * nc
   \<and> length (fst (writeFrame channels nc i (view, off))) = length view
   \<and> (\<forall>k. k < off \<or> off + 2 * nc \<le> k \<longrightarrow>
         fst (writeFrame channels nc i (view, off)) ! k = view ! k)
   \<and> (off + 2 * nc \<le> length view \<longrightarrow>
        (\<forall>ch < nc. getUint16 (fst (writeFrame channels nc i (view, off))) (off + 2 * ch)
                      = nat (encodeSample (channels ! ch ! i) mod 65536)))"
  unfolding writeFrame_def
  by (rule sample_loop [where enc = "\<lambda>ch. encodeSample (channels ! ch ! i)"])

lemma sample_index_bound:
  fixes i len ch nc :: nat
  assumes "i < len" and "ch < nc"
  shows "i * nc + ch < len * nc"
proof -
  have "i * nc + ch < i * nc + nc" using assms(2) by simp
  also have "\<dots> = Suc i * nc" by simp
  also have "\<dots> \<le> len * nc" using assms(1) by (intro mult_le_mono1) simp
  finally show ?thesis .
qed

lemma writeData_loop:
  "snd (writeData channels nc len (view, off)) = off + 2 * (len * nc)
   \<and> length (fst (writeData channels nc len (view, off))) = length view
   \<and> (\<forall>k. k < off \<or> off + 2 * (len * nc) \<le> k \<longrightarrow>
         fst (writeData channels nc len (view, off)) ! k = view ! k)
   \<and> (off + 2 * (len * nc) \<le> length view \<longrightarrow>
        (\<forall>i < len. \<forall>ch < nc.
           getUint16 (fst (writeData channels nc len (view, off))) (off + 2 * (i * nc + ch))
             = nat (encodeSample (channels ! ch ! i) mod 65536)))"
proof (induction len)
  case 0
  show ?case by (simp add: writeData_def)
next
  case (Suc len)
  let ?D = "\<lambda>m. writeData channels nc m (view, off)"
  let ?o = "off + 2 * (len * nc)"
  from Suc.IH have s: "snd (?D len) = ?o"
    and l: "length (fst (?D len)) = length view"
    and f: "\<And>k. k < off \<or> ?o \<le> k \<Longrightarrow> fst (?D len) ! k = view ! k"
    and c: "\<And>i ch. ?o \<le> length view \<Longrightarrow> i < len \<Longrightarrow> ch < nc \<Longrightarrow>
              getUint16 (fst (?D len)) (off + 2 * (i * nc + ch))
                = nat (encodeSample (channels ! ch ! i) mod 65536)"
    by blast+
  have "?D (Suc len) = writeFrame channels nc len (?D len)"
    by (simp add: writeData_def)
  also have "?D len = (fst (?D len), ?o)"
    using s by (metis prod.collapse)
  finally have step: "?D (Suc len) = writeFrame channels nc len (fst (?D len), ?o)" .
  note w = writeFrame_loop [of channels nc len "fst (?D len)" ?o]
  from w have ws: "snd (writeFrame channels nc len (fst (?D len), ?o)) = ?o + 2 * nc"
    and wl: "length (fst (writeFrame channels nc len (fst (?D len), ?o))) = length (fst (?D len))"
    and wf: "\<And>k. k < ?o \<or> ?o + 2 * nc \<le> k \<Longrightarrow>
               fst (writeFrame channels nc len (fst (?D len), ?o)) ! k = fst (?D len) ! k"
    and wc: "\<And>ch. ?o + 2 * nc \<le> length (fst (?D len)) \<Longrightarrow> ch < nc \<Longrightarrow>
               getUint16 (fst (writeFrame channels nc len (fst (?D len), ?o))) (?o + 2 * ch)
                 = nat (encodeSample (channels ! ch ! len) mod 65536)"
    by blast+
  have e: "off + 2 * (Suc len * nc) = ?o + 2 * nc" by simp
  have 1: "snd (?D (Suc len)) = off + 2 * (Suc len * nc)"
    unfolding step ws by simp
  have 2: "length (fst (?D (Suc len))) = length view"
    unfolding step wl l ..
  have 3: "fst (?D (Suc len)) ! k = view ! k"
    if "k < off \<or> off + 2 * (Suc len * nc) \<le> k" for k
  proof -
    from that have a: "k < ?o \<or> ?o + 2 * nc \<le> k" unfolding e by auto
    from that have b: "k < off \<or> ?o \<le> k" unfolding e by auto
    show ?thesis unfolding step using wf [OF a] f [OF b] by simp
  qed
  have 4: "getUint16 (fst (?D (Suc len))) (off + 2 * (i * nc + ch))
             = nat (encodeSample (channels ! ch ! i) mod 65536)"
    if fit: "off + 2 * (Suc len * nc) \<le> length view" and i: "i < Suc len" and ch: "ch < nc"
    for i ch
  proof (cases "i = len")
    case True
    from fit l have "?o + 2 * nc \<le> length (fst (?D len))" unfolding e by simp
    from wc [OF this ch] have "getUint16 (fst (?D (Suc len))) (?o + 2 * ch)
        = nat (encodeSample (channels ! ch ! len) mod 65536)"
      unfolding step .
    moreover have "?o + 2 * ch = off + 2 * (len * nc + ch)" by simp
    ultimately show ?thesis using True by simp
  next
    case False
    with i have lt: "i < len" by simp
    from sample_index_bound [OF lt ch] have b: "off + 2 * (i * nc + ch) + 1 < ?o" by simp
    then have "off + 2 * (i * nc + ch) < ?o \<or> ?o + 2 * nc \<le> off + 2 * (i * nc + ch)"
      and "off + 2 * (i * nc + ch) + 1 < ?o \<or> ?o + 2 * nc \<le> off + 2 * (i * nc + ch) + 1"
      by simp_all
    then have "getUint16 (fst (?D (Suc len))) (off + 2 * (i * nc + ch))
        = getUint16 (fst (?D len)) (off + 2 * (i * nc + ch))"
      unfolding step getUint16_def using wf by simp
    moreover from fit have "?o \<le> length view" unfolding e by simp
    ultimately show ?thesis using c lt ch by simp
  qed
  from 1 2 3 4 show ?case by blast
qed

lemma getInt16_of_getUint16:
  assumes "- 32768 \<le> x" and "x \<le> 32767" and u: "getUint16 v p = nat (x mod 65536)"
  shows "getInt16 v p = x"
proof (cases "x < 0")
  case True
  with assms have "x mod 65536 = x + 65536" by (intro mod_wrap_negative) simp_all
  with True assms show ?thesis by (simp add: getInt16_def u Let_def)
next
  case False
  with assms have "x mod 65536 = x" by simp
  with False assms show ?thesis by (simp add: getInt16_def u Let_def)
qed

lemma audioBufferToWav_sample:
  assumes i: "i < frames b" and ch: "ch < numberOfChannels b"
  shows "getInt16 (audioBufferToWav b) (44 + 2 * (i * numberOfChannels b + ch))
           = encodeSample (channelData b ! ch ! i)"
proof -
  let ?nc = "numberOfChannels b"
  let ?len = "frames b * ?nc * 2 + 44"
  let ?h = "writeHeader ?len ?nc (sampleRate b) (replicate ?len 0)"
  have w: "audioBufferToWav b = fst (writeData (channelData b) ?nc (frames b) (?h, 44))"
    by (simp add: audioBufferToWav_def Let_def)
  have fit: "44 + 2 * (frames b * ?nc) \<le> length ?h" by simp
  from writeData_loop [of "channelData b" ?nc "frames b" ?h 44] fit i ch
  have "getUint16 (audioBufferToWav b) (44 + 2 * (i * ?nc + ch))
          = nat (encodeSample (channelData b ! ch ! i) mod 65536)"
    unfolding w by blast
  with encodeSample_range [of "channelData b ! ch ! i"] show ?thesis
    by (intro getInt16_of_getUint16) simp_all
qed

lemma length_concat_channel:
  assumes "\<forall>b \<in> set bs. length (channelData b ! ch) = frames b"
  shows "length (concat (map (\<lambda>b. channelData b ! ch) bs)) = sum_list (map frames bs)"
  using assms by (induction bs) simp_all

section \<open>Lemmas on a paused engine\<close>

lemma paused_without_timer_is_stable:
  assumes "playbackState s = Paused" and "pendingTimers s = 0"
  shows "fold (arrive decodeChunk) arrivals s = s"
proof (induction arrivals)
  case Nil
  show ?case by simp
next
  case (Cons a arrivals)
  have "arrive decodeChunk a s = s"
    using assms by (cases a) (simp_all add: arrive_def processAudioChunks_def)
  with Cons.IH show ?case by simp
qed

lemma timer_callback_announces_playing:
  "0 < pendingTimers s \<Longrightarrow> playbackState (arrive decodeChunk TimerFires s) = Playing"
  by (simp add: arrive_def timerFired_def setPlaybackState_def dispatchEvent_def)

section \<open>Lemma on the fallback volume loop\<close>

lemma setFallbackVolumes_in_range:
  assumes "\<forall>p \<in> set ap. 0 \<le> prompt_weight p"
  shows "setFallbackVolumes ap pls =
           (map (\<lambda>(txt, pl). (txt, pl\<lparr>volume :=
                   (case find (\<lambda>p. prompt_text p = txt) ap of
                      Some p \<Rightarrow> min (prompt_weight p) 1 | None \<Rightarrow> 0)\<rparr>)) pls, None)"
proof (induction pls)
  case Nil
  then show ?case by simp
next
  case (Cons entry pls)
  obtain key pl where a: "entry = (key, pl)" by (cases entry)
  show ?case
  proof (cases "find (\<lambda>p. prompt_text p = key) ap")
    case None
    with Cons.IH a show ?thesis by simp
  next
    case (Some p)
    then have "p \<in> set ap" by (auto simp: find_Some_iff)
    with assms have "0 \<le> prompt_weight p" by simp
    then have "\<not> min (prompt_weight p) 1 < 0" by simp
    with Cons.IH a Some show ?thesis by (simp add: Let_def)
  qed
qed

section \<open>The claims\<close>

text \<open>
  C1. The specification says that \<^verbatim>\<open>stop\<close> increments an epoch counter and that a connect
  or chunk completion carrying a stale epoch is discarded. The engine keeps no epoch
  counter. What holds: \<^verbatim>\<open>stop\<close> sets the playback state to stopped and clears the
  session handle, the session promise, Fallback mode and \<open>nextStartTime\<close>; a delivery
  of chunks that arrives while the state is stopped or paused leaves the engine
  unchanged; and when \<^verbatim>\<open>stop\<close> runs while a connect attempt is in flight, the session
  that the attempt later delivers is stored as the engine's session and \<^verbatim>\<open>play\<close> is called
  on it.
\<close>

theorem stop_clears_but_late_session_is_used:
  "playbackState (stop s) = Stopped \<and> session (stop s) = None
   \<and> sessionPromise (stop s) = None \<and> \<not> isFallbackMode (stop s)
   \<and> nextStartTime (stop s) = 0
   \<and> (playbackState s = Stopped \<or> playbackState s = Paused \<longrightarrow>
         processAudioChunks decodeChunk now audioChunks s = s)
   \<and> (sessionPromise s = None \<longrightarrow>
         session (play_interrupted_by_stop (Connected h) fires rejected s)
           = Some (LiveSession h)
         \<and> last (sessionCalls (play_interrupted_by_stop (Connected h) fires rejected s))
           = (h, SPlay)
         \<and> outputGain (play_interrupted_by_stop (Connected h) fires rejected s) = 1)"
proof -
  have st: "playbackState (stop s) = Stopped \<and> session (stop s) = None
   \<and> sessionPromise (stop s) = None \<and> \<not> isFallbackMode (stop s)
   \<and> nextStartTime (stop s) = 0"
    by (simp add: stop_def setPlaybackState_def dispatchEvent_def Let_def)
  have guard: "playbackState s = Stopped \<or> playbackState s = Paused \<longrightarrow>
         processAudioChunks decodeChunk now audioChunks s = s"
    by (auto simp: processAudioChunks_def)
  have late: "session (play_interrupted_by_stop (Connected h) fires rejected s)
           = Some (LiveSession h)
         \<and> last (sessionCalls (play_interrupted_by_stop (Connected h) fires rejected s))
           = (h, SPlay)
         \<and> outputGain (play_interrupted_by_stop (Connected h) fires rejected s) = 1"
    if "sessionPromise s = None"
    using that
    by (simp add: play_interrupted_by_stop_def play_begin_def getSession_def
        connectAudioGraph_def setPlaybackState_def dispatchEvent_def
        promiseAt_def connect_done_def stop_def play_resume_def
        setWeightedPrompts_def setWeightedPrompts_body_def callSession_def pause_def
        Let_def split: option.splits session.splits)
  from st guard late show ?thesis by blast
qed

theorem stop_clears_but_late_session_is_used_witness:
  "playbackState prompted_engine = Stopped
   \<and> processAudioChunks (\<lambda>c :: nat. Some demo_buffer) 5 [0] prompted_engine = prompted_engine
   \<and> sessionPromise prompted_engine = None
   \<and> session (play_interrupted_by_stop (Connected 7) True None prompted_engine)
        = Some (LiveSession 7)
   \<and> last (sessionCalls (play_interrupted_by_stop (Connected 7) True None prompted_engine))
        = (7, SPlay)"
proof -
  have h: "playbackState prompted_engine = Stopped" "sessionPromise prompted_engine = None"
    by (simp_all add: prompted_engine_def new_engine_def)
  from stop_clears_but_late_session_is_used
         [where s = prompted_engine and decodeChunk = "\<lambda>c :: nat. Some demo_buffer"
            and now = 5 and audioChunks = "[0]" and h = 7 and fires = True
            and rejected = None] h
  show ?thesis by simp
qed

text \<open>
  C1 as stated fails. \<^verbatim>\<open>play\<close> is interrupted by \<^verbatim>\<open>stop\<close> on an engine with one active
  prompt; the connect attempt then succeeds with handle 7. The late session becomes the
  engine's session, receives the prompts and is told to play, and the output gain is
  ramped up. When the attempt fails instead, Fallback mode is entered and the state
  becomes playing, after \<^verbatim>\<open>stop\<close>. A buffer whose decoding ends after \<^verbatim>\<open>stop\<close> is scheduled.
\<close>

theorem late_session_is_activated_counterexample:
  "session (play_interrupted_by_stop (Connected 7) True None prompted_engine)
     = Some (LiveSession 7)
   \<and> sessionCalls (play_interrupted_by_stop (Connected 7) True None prompted_engine)
     = [(7, SSetWeightedPrompts
              [\<lparr> promptId = ''prompt-0'', prompt_text = ''Funk'', prompt_weight = 1 \<rparr>]),
        (7, SPlay)]
   \<and> outputGain (play_interrupted_by_stop (Connected 7) True None prompted_engine) = 1
   \<and> playbackState (play_interrupted_by_stop ConnectFailed True None prompted_engine) = Playing
   \<and> scheduled (scheduleDecoded 5 demo_buffer (stop (new_engine\<lparr>playbackState := Playing\<rparr>)))
     = [(7, demo_buffer)]"
proof -
  have a: "session (play_interrupted_by_stop (Connected 7) True None prompted_engine)
     = Some (LiveSession 7)
   \<and> sessionCalls (play_interrupted_by_stop (Connected 7) True None prompted_engine)
     = [(7, SSetWeightedPrompts
              [\<lparr> promptId = ''prompt-0'', prompt_text = ''Funk'', prompt_weight = 1 \<rparr>]),
        (7, SPlay)]
   \<and> outputGain (play_interrupted_by_stop (Connected 7) True None prompted_engine) = 1"
    by (simp add: play_interrupted_by_stop_def play_begin_def getSession_def
        connectAudioGraph_def setPlaybackState_def dispatchEvent_def prompted_engine_def
        new_engine_def promiseAt_def connect_done_def stop_def play_resume_def
        setWeightedPrompts_def setWeightedPrompts_body_def activePrompts_def callSession_def
        Let_def)
  have b: "playbackState (play_interrupted_by_stop ConnectFailed True None prompted_engine)
      = Playing"
    by (simp add: play_interrupted_by_stop_def play_begin_def getSession_def
        connectAudioGraph_def setPlaybackState_def dispatchEvent_def prompted_engine_def
        new_engine_def promiseAt_def connect_done_def stop_def play_resume_def
        initializeFallbackPlayers_def FALLBACK_AUDIO_MAP_def
        setWeightedPrompts_def setWeightedPrompts_body_def activePrompts_def Let_def)
  have c: "scheduled (scheduleDecoded 5 demo_buffer (stop (new_engine\<lparr>playbackState := Playing\<rparr>)))
     = [(7, demo_buffer)]"
    by (simp add: scheduleDecoded_def stop_def setPlaybackState_def dispatchEvent_def
        new_engine_def Let_def)
  from a b c show ?thesis by simp
qed

text \<open>
  C2. The specification says that concatenation fails fast whenever a recorded buffer
  differs from the first in channel count or sample rate. \<^verbatim>\<open>concatenateAudioBuffers\<close>
  compares nothing. What holds for a recording of well-formed buffers: when some buffer
  has fewer channels than the first, reading its missing channel throws, and
  \<^verbatim>\<open>stopRecordingAndDownload\<close> dispatches an error event, emits no file and clears the
  recording; when every buffer has at least as many channels as the first, whatever the
  sample rates, a file is emitted: the WAV of the buffer that has the first buffer's
  channel count and sample rate and, channel by channel, the samples of all buffers in
  order.
\<close>

theorem concatenation_fails_only_on_missing_channel:
  assumes rec: "isRecording s" and ne: "recordedBuffers s \<noteq> []"
    and wf: "\<forall>b \<in> set (recordedBuffers s). wf_buffer b"
  shows "((\<exists>b \<in> set (recordedBuffers s).
             numberOfChannels b < numberOfChannels (hd (recordedBuffers s))) \<longrightarrow>
           downloads (stopRecordingAndDownload s) = downloads s
           \<and> events (stopRecordingAndDownload s) = events s @
                [RecordingStateChanged False, ErrorEvent ''Could not process recorded audio.'']
           \<and> recordedBuffers (stopRecordingAndDownload s) = []
           \<and> \<not> isRecording (stopRecordingAndDownload s))
       \<and> ((\<forall>b \<in> set (recordedBuffers s).
             numberOfChannels (hd (recordedBuffers s)) \<le> numberOfChannels b) \<longrightarrow>
           downloads (stopRecordingAndDownload s) = downloads s @
             [(''lutox-oscillia-creation.wav'',
               audioBufferToWav
                 \<lparr> sampleRate = sampleRate (hd (recordedBuffers s)),
                   frames = sum_list (map frames (recordedBuffers s)),
                   channelData =
                     map (\<lambda>ch. concat (map (\<lambda>b. channelData b ! ch) (recordedBuffers s)))
                         [0 ..< numberOfChannels (hd (recordedBuffers s))] \<rparr>)]
           \<and> events (stopRecordingAndDownload s) = events s @ [RecordingStateChanged False]
           \<and> recordedBuffers (stopRecordingAndDownload s) = []
           \<and> \<not> isRecording (stopRecordingAndDownload s))"
proof (intro conjI impI)
  assume "\<exists>b \<in> set (recordedBuffers s).
             numberOfChannels b < numberOfChannels (hd (recordedBuffers s))"
  then have "isl (concatenateAudioBuffers (recordedBuffers s))"
    by (rule concatenate_missing_channel)
  then obtain e where e: "concatenateAudioBuffers (recordedBuffers s) = Inl e"
    by (cases "concatenateAudioBuffers (recordedBuffers s)") auto
  show "downloads (stopRecordingAndDownload s) = downloads s"
    using rec ne e by (simp add: stopRecordingAndDownload_def dispatchEvent_def Let_def)
  show "events (stopRecordingAndDownload s) = events s @
          [RecordingStateChanged False, ErrorEvent ''Could not process recorded audio.'']"
    using rec ne e by (simp add: stopRecordingAndDownload_def dispatchEvent_def Let_def)
  show "recordedBuffers (stopRecordingAndDownload s) = []"
    using rec ne e by (simp add: stopRecordingAndDownload_def dispatchEvent_def Let_def)
  show "\<not> isRecording (stopRecordingAndDownload s)"
    using rec ne e by (simp add: stopRecordingAndDownload_def dispatchEvent_def Let_def)
next
  assume "\<forall>b \<in> set (recordedBuffers s).
             numberOfChannels (hd (recordedBuffers s)) \<le> numberOfChannels b"
  with wf have "\<forall>b \<in> set (recordedBuffers s).
      wf_buffer b \<and> numberOfChannels (hd (recordedBuffers s)) \<le> numberOfChannels b"
    by simp
  from concatenate_ok [OF ne this]
  have c: "concatenateAudioBuffers (recordedBuffers s) =
      Inr \<lparr> sampleRate = sampleRate (hd (recordedBuffers s)),
            frames = sum_list (map frames (recordedBuffers s)),
            channelData =
              map (\<lambda>ch. concat (map (\<lambda>b. channelData b ! ch) (recordedBuffers s)))
                  [0 ..< numberOfChannels (hd (recordedBuffers s))] \<rparr>" .
  show "downloads (stopRecordingAndDownload s) = downloads s @
             [(''lutox-oscillia-creation.wav'',
               audioBufferToWav
                 \<lparr> sampleRate = sampleRate (hd (recordedBuffers s)),
                   frames = sum_list (map frames (recordedBuffers s)),
                   channelData =
                     map (\<lambda>ch. concat (map (\<lambda>b. channelData b ! ch) (recordedBuffers s)))
                         [0 ..< numberOfChannels (hd (recordedBuffers s))] \<rparr>)]"
    using rec ne by (simp add: stopRecordingAndDownload_def dispatchEvent_def Let_def c)
  show "events (stopRecordingAndDownload s) = events s @ [RecordingStateChanged False]"
    using rec ne by (simp add: stopRecordingAndDownload_def dispatchEvent_def Let_def c)
  show "recordedBuffers (stopRecordingAndDownload s) = []"
    using rec ne by (simp add: stopRecordingAndDownload_def dispatchEvent_def Let_def c)
  show "\<not> isRecording (stopRecordingAndDownload s)"
    using rec ne by (simp add: stopRecordingAndDownload_def dispatchEvent_def Let_def c)
qed

theorem concatenation_fails_only_on_missing_channel_witness:
  "isRecording (recording_engine [demo_buffer, mono_buffer])
   \<and> recordedBuffers (recording_engine [demo_buffer, mono_buffer]) \<noteq> []
   \<and> recordedBuffers (recording_engine [demo_buffer, mono_buffer]) = [demo_buffer, mono_buffer]
   \<and> wf_buffer demo_buffer \<and> wf_buffer mono_buffer
   \<and> numberOfChannels mono_buffer < numberOfChannels demo_buffer
   \<and> downloads (stopRecordingAndDownload (recording_engine [demo_buffer, mono_buffer])) = []
   \<and> events (stopRecordingAndDownload (recording_engine [demo_buffer, mono_buffer]))
        = [RecordingStateChanged False, ErrorEvent ''Could not process recorded audio.'']
   \<and> isRecording (recording_engine [demo_buffer, other_rate_buffer])
   \<and> recordedBuffers (recording_engine [demo_buffer, other_rate_buffer]) \<noteq> []
   \<and> recordedBuffers (recording_engine [demo_buffer, other_rate_buffer])
        = [demo_buffer, other_rate_buffer]
   \<and> wf_buffer other_rate_buffer
   \<and> numberOfChannels demo_buffer \<le> numberOfChannels other_rate_buffer
   \<and> sampleRate other_rate_buffer \<noteq> sampleRate demo_buffer
   \<and> downloads (stopRecordingAndDownload (recording_engine [demo_buffer, other_rate_buffer]))
        = [(''lutox-oscillia-creation.wav'',
            audioBufferToWav \<lparr> sampleRate = 48000, frames = 3,
              channelData = [ [0, 1 / 2, 1], [- 1 / 4, 1, - 1] ] \<rparr>)]"
proof -
  have wf: "wf_buffer demo_buffer" "wf_buffer mono_buffer" "wf_buffer other_rate_buffer"
    by (simp_all add: wf_buffer_def demo_buffer_def mono_buffer_def other_rate_buffer_def
        numberOfChannels_def)
  have n: "numberOfChannels demo_buffer = 2" "numberOfChannels mono_buffer = 1"
    "numberOfChannels other_rate_buffer = 2"
    by (simp_all add: demo_buffer_def mono_buffer_def other_rate_buffer_def numberOfChannels_def)
  have r: "\<And>bs. isRecording (recording_engine bs)"
    "\<And>bs. recordedBuffers (recording_engine bs) = bs"
    "\<And>bs. downloads (recording_engine bs) = []"
    "\<And>bs. events (recording_engine bs) = []"
    by (simp_all add: recording_engine_def new_engine_def)
  have a: "downloads (stopRecordingAndDownload (recording_engine [demo_buffer, mono_buffer])) = []
     \<and> events (stopRecordingAndDownload (recording_engine [demo_buffer, mono_buffer]))
        = [RecordingStateChanged False, ErrorEvent ''Could not process recorded audio.'']"
    using concatenation_fails_only_on_missing_channel
            [of "recording_engine [demo_buffer, mono_buffer]"] wf n
    by (simp add: r)
  have full: "sampleRate demo_buffer = 48000"
    "frames demo_buffer + frames other_rate_buffer = 3"
    "map (\<lambda>ch. channelData demo_buffer ! ch @ channelData other_rate_buffer ! ch) [0 ..< 2]
       = [ [0, 1 / 2, 1], [- 1 / 4, 1, - 1] ]"
    by (simp_all add: demo_buffer_def other_rate_buffer_def numeral_2_eq_2)
  have b: "downloads (stopRecordingAndDownload (recording_engine [demo_buffer, other_rate_buffer]))
        = [(''lutox-oscillia-creation.wav'',
            audioBufferToWav \<lparr> sampleRate = 48000, frames = 3,
              channelData = [ [0, 1 / 2, 1], [- 1 / 4, 1, - 1] ] \<rparr>)]"
    using concatenation_fails_only_on_missing_channel
            [of "recording_engine [demo_buffer, other_rate_buffer]"] wf n
    by (simp add: r full)
  have sr: "sampleRate other_rate_buffer \<noteq> sampleRate demo_buffer"
    by (simp add: demo_buffer_def other_rate_buffer_def)
  from a b wf n sr show ?thesis by (simp add: r)
qed

text \<open>
  C2 as stated fails: a buffer at 44100 Hz recorded after one at 48000 Hz is concatenated
  without an error, and a file is emitted.
\<close>

theorem rate_mismatch_counterexample:
  "sampleRate other_rate_buffer \<noteq> sampleRate demo_buffer
   \<and> downloads (stopRecordingAndDownload (recording_engine [demo_buffer, other_rate_buffer]))
       = [(''lutox-oscillia-creation.wav'',
           audioBufferToWav \<lparr> sampleRate = 48000, frames = 3,
              channelData = [ [0, 1 / 2, 1], [- 1 / 4, 1, - 1] ] \<rparr>)]
   \<and> events (stopRecordingAndDownload (recording_engine [demo_buffer, other_rate_buffer]))
       = [RecordingStateChanged False]"
proof -
  have c: "concatenateAudioBuffers [demo_buffer, other_rate_buffer] =
        Inr \<lparr> sampleRate = 48000, frames = 3,
              channelData = [ [0, 1 / 2, 1], [- 1 / 4, 1, - 1] ] \<rparr>"
    using concatenate_ok [of "[demo_buffer, other_rate_buffer]"]
    by (simp add: demo_buffer_def other_rate_buffer_def wf_buffer_def numberOfChannels_def
        upt_rec_numeral)
  show ?thesis
    by (simp add: stopRecordingAndDownload_def recording_engine_def new_engine_def
        dispatchEvent_def Let_def c)
      (simp add: demo_buffer_def other_rate_buffer_def)
qed

text \<open>
  C3. The specification says that \<^verbatim>\<open>play\<close> with no active prompt raises an error and
  forces the state to paused in every session mode, so that playing is never reached.
  What holds: in Live mode (this call of \<^verbatim>\<open>play\<close> opens a connection that succeeds, or a
  Live session is already connected), when the throttled call of \<^verbatim>\<open>setWeightedPrompts\<close>
  runs, \<^verbatim>\<open>play\<close> with no active prompt dispatches the error event and returns with the
  state paused, having announced loading and paused only, armed no timer and scheduled
  nothing. A delivery of chunks to the paused engine is dropped. When no pre-roll timer
  armed by an earlier chunk is pending, no sequence of timer callbacks and of chunk
  deliveries that begin after the call changes the engine: the state stays paused.
\<close>

theorem live_play_without_prompts_pauses:
  assumes none: "activePrompts s = []"
    and live: "(sessionPromise s = None \<and> r = Connected h)
             \<or> (sessionPromise s = Some a \<and> promiseAt s a = Resolved sess \<and> \<not> isFallbackMode s)"
  shows "playbackState (play r True rejected s) = Paused
       \<and> events (play r True rejected s) = events s @
           [PlaybackStateChanged Loading,
            ErrorEvent ''There needs to be one active prompt to play.'',
            PlaybackStateChanged Paused]
       \<and> processAudioChunks decodeChunk now audioChunks (play r True rejected s)
           = play r True rejected s
       \<and> pendingTimers (play r True rejected s) = pendingTimers s
       \<and> scheduled (play r True rejected s) = scheduled s
       \<and> (pendingTimers s = 0 \<longrightarrow>
            fold (arrive decodeChunk) arrivals (play r True rejected s)
              = play r True rejected s)"
proof -
  have p: "playbackState (play r True rejected s) = Paused
       \<and> events (play r True rejected s) = events s @
           [PlaybackStateChanged Loading,
            ErrorEvent ''There needs to be one active prompt to play.'',
            PlaybackStateChanged Paused]
       \<and> pendingTimers (play r True rejected s) = pendingTimers s
       \<and> scheduled (play r True rejected s) = scheduled s"
    using live
  proof
    assume "sessionPromise s = None \<and> r = Connected h"
    with none show ?thesis
      by (simp add: play_def play_begin_def getSession_def connectAudioGraph_def
          setPlaybackState_def dispatchEvent_def promiseAt_def connect_done_def play_resume_def
          setWeightedPrompts_def setWeightedPrompts_body_def activePrompts_def pause_def
          callSession_def Let_def split: session.splits)
  next
    assume "sessionPromise s = Some a \<and> promiseAt s a = Resolved sess \<and> \<not> isFallbackMode s"
    with none show ?thesis
      by (simp add: play_def play_begin_def getSession_def connectAudioGraph_def
          setPlaybackState_def dispatchEvent_def promiseAt_def play_resume_def
          setWeightedPrompts_def setWeightedPrompts_body_def activePrompts_def pause_def
          callSession_def Let_def split: session.splits if_splits)
  qed
  then have g: "processAudioChunks decodeChunk now audioChunks (play r True rejected s)
           = play r True rejected s"
    by (simp add: processAudioChunks_def)
  have "fold (arrive decodeChunk) arrivals (play r True rejected s) = play r True rejected s"
    if "pendingTimers s = 0"
    using p that by (intro paused_without_timer_is_stable) simp_all
  with p g show ?thesis by blast
qed

theorem live_play_without_prompts_pauses_witness:
  "activePrompts new_engine = [] \<and> sessionPromise new_engine = None
   \<and> pendingTimers new_engine = 0
   \<and> playbackState (play (Connected 7) True None new_engine) = Paused
   \<and> events (play (Connected 7) True None new_engine) =
         [PlaybackStateChanged Loading,
          ErrorEvent ''There needs to be one active prompt to play.'',
          PlaybackStateChanged Paused]
   \<and> pendingTimers (play (Connected 7) True None new_engine) = 0
   \<and> fold (arrive demo_decoder) [ChunksArrive [0, 1] 5, TimerFires, ChunksArrive [1] 6]
         (play (Connected 7) True None new_engine)
       = play (Connected 7) True None new_engine"
proof -
  have h: "activePrompts new_engine = []" "sessionPromise new_engine = None"
    "events new_engine = []" "pendingTimers new_engine = 0"
    by (simp_all add: activePrompts_def new_engine_def)
  from live_play_without_prompts_pauses
         [where s = new_engine and r = "Connected 7" and h = 7 and a = 0 and sess = MockSession
            and rejected = None and decodeChunk = demo_decoder and now = 0
            and audioChunks = "[]"
            and arrivals = "[ChunksArrive [0, 1] 5, TimerFires, ChunksArrive [1] 6]",
          OF h(1)] h
  show ?thesis by simp
qed

text \<open>
  C3 as stated fails in Fallback mode: the fallback branch of \<^verbatim>\<open>setWeightedPrompts\<close>
  returns before the check for active prompts, and \<^verbatim>\<open>play\<close> ends in the state playing.
\<close>

theorem fallback_play_without_prompts_counterexample:
  "activePrompts new_engine = []
   \<and> playbackState (play ConnectFailed True None new_engine) = Playing
   \<and> isFallbackMode (play ConnectFailed True None new_engine)
   \<and> events (play ConnectFailed True None new_engine) =
       [PlaybackStateChanged Loading,
        ErrorEvent ''Real-time connection failed. Activating offline fallback mode with local audio samples.'',
        PlaybackStateChanged Playing]"
  by (simp add: play_def play_begin_def getSession_def connectAudioGraph_def setPlaybackState_def
      dispatchEvent_def new_engine_def promiseAt_def connect_done_def
      initializeFallbackPlayers_def FALLBACK_AUDIO_MAP_def play_resume_def
      setWeightedPrompts_def setWeightedPrompts_body_def activePrompts_def Let_def)

text \<open>
  C4. For every buffer of \<open>f\<close> frames with \<open>c\<close> channels at sample rate \<open>r\<close> whose sizes
  fit the fields of the format, the bytes of \<^verbatim>\<open>audioBufferToWav\<close> are: \<open>RIFF\<close>, the total
  length minus 8, \<open>WAVE\<close>, the \<open>fmt\<close> chunk with chunk size 16, format 1, \<open>c\<close>, \<open>r\<close>, byte
  rate \<open>r * 2 * c\<close>, block align \<open>c * 2\<close> and 16 bits per sample, then \<open>data\<close>, the
  data size \<open>f * c * 2\<close> and that many bytes of data; all numbers little-endian. In
  particular, stopping a recording of three one-second stereo buffers at 48 kHz emits a
  file whose data chunk has \<open>3 * 48000 * 2 * 2\<close> bytes.
\<close>

theorem wav_layout:
  assumes fit: "frames b * numberOfChannels b * 2 + 36 < 4294967296"
      "sampleRate b < 4294967296"
      "sampleRate b * 2 * numberOfChannels b < 4294967296"
      "numberOfChannels b * 2 < 65536"
  shows "length (audioBufferToWav b) = 44 + frames b * numberOfChannels b * 2
       \<and> getString (audioBufferToWav b) 0 4 = ''RIFF''
       \<and> getUint32 (audioBufferToWav b) 4 = length (audioBufferToWav b) - 8
       \<and> getString (audioBufferToWav b) 8 4 = ''WAVE''
       \<and> getString (audioBufferToWav b) 12 4 = ''fmt ''
       \<and> getUint32 (audioBufferToWav b) 16 = 16
       \<and> getUint16 (audioBufferToWav b) 20 = 1
       \<and> getUint16 (audioBufferToWav b) 22 = numberOfChannels b
       \<and> getUint32 (audioBufferToWav b) 24 = sampleRate b
       \<and> getUint32 (audioBufferToWav b) 28 = sampleRate b * 2 * numberOfChannels b
       \<and> getUint16 (audioBufferToWav b) 32 = numberOfChannels b * 2
       \<and> getUint16 (audioBufferToWav b) 34 = 16
       \<and> getString (audioBufferToWav b) 36 4 = ''data''
       \<and> getUint32 (audioBufferToWav b) 40 = frames b * numberOfChannels b * 2
       \<and> length (drop 44 (audioBufferToWav b)) = frames b * numberOfChannels b * 2
       \<and> (\<forall>s b1 b2 b3.
             isRecording s \<and> recordedBuffers s = [b1, b2, b3]
             \<and> (\<forall>x \<in> {b1, b2, b3}. wf_buffer x \<and> frames x = 48000
                    \<and> numberOfChannels x = 2 \<and> sampleRate x = 48000) \<longrightarrow>
             (\<exists>w. downloads (stopRecordingAndDownload s)
                     = downloads s @ [(''lutox-oscillia-creation.wav'', w)]
                  \<and> getUint32 w 40 = 3 * 48000 * 2 * 2
                  \<and> length (drop 44 w) = 3 * 48000 * 2 * 2))"
proof -
  have len: "length (audioBufferToWav b) = 44 + frames b * numberOfChannels b * 2"
    by (simp add: length_audioBufferToWav)
  note f = audioBufferToWav_fields [of b]
  have size: "getUint32 (audioBufferToWav b) 4 = length (audioBufferToWav b) - 8"
    using fit(1) by (simp add: f(2) len)
  have chan: "getUint16 (audioBufferToWav b) 22 = numberOfChannels b"
    using fit(4) by (simp add: f(7))
  have rate: "getUint32 (audioBufferToWav b) 24 = sampleRate b"
    using fit(2) by (simp add: f(8))
  have byte_rate: "getUint32 (audioBufferToWav b) 28 = sampleRate b * 2 * numberOfChannels b"
    using fit(3) by (simp only: f(9) mod_less)
  have align: "getUint16 (audioBufferToWav b) 32 = numberOfChannels b * 2"
    using fit(4) by (simp only: f(10) mod_less)
  have data: "getUint32 (audioBufferToWav b) 40 = frames b * numberOfChannels b * 2"
    using fit(1) by (simp add: f(13))
  have dlen: "length (drop 44 (audioBufferToWav b)) = frames b * numberOfChannels b * 2"
    by (simp add: len)
  have three: "\<exists>w. downloads (stopRecordingAndDownload s)
                     = downloads s @ [(''lutox-oscillia-creation.wav'', w)]
                  \<and> getUint32 w 40 = 3 * 48000 * 2 * 2
                  \<and> length (drop 44 w) = 3 * 48000 * 2 * 2"
    if rec: "isRecording s" "recordedBuffers s = [b1, b2, b3]"
      and bufs: "\<forall>x \<in> {b1, b2, b3}. wf_buffer x \<and> frames x = 48000
                    \<and> numberOfChannels x = 2 \<and> sampleRate x = 48000"
    for s b1 b2 b3
  proof -
    let ?full = "\<lparr> sampleRate = sampleRate (hd [b1, b2, b3]),
                    frames = sum_list (map frames [b1, b2, b3]),
                    channelData = map (\<lambda>ch. concat (map (\<lambda>x. channelData x ! ch) [b1, b2, b3]))
                                      [0 ..< numberOfChannels (hd [b1, b2, b3])] \<rparr>"
    have c: "concatenateAudioBuffers [b1, b2, b3] = Inr ?full"
      using bufs by (intro concatenate_ok) simp_all
    have nf: "numberOfChannels ?full = 2" "frames ?full = 144000"
      using bufs by (simp_all add: numberOfChannels_def)
    have d: "downloads (stopRecordingAndDownload s)
               = downloads s @ [(''lutox-oscillia-creation.wav'', audioBufferToWav ?full)]"
      using rec c by (simp add: stopRecordingAndDownload_def dispatchEvent_def Let_def)
    have "getUint32 (audioBufferToWav ?full) 40 = 3 * 48000 * 2 * 2"
      by (simp only: audioBufferToWav_fields(13) nf) simp
    moreover have "length (drop 44 (audioBufferToWav ?full)) = 3 * 48000 * 2 * 2"
      by (simp only: length_drop length_audioBufferToWav nf)
    ultimately show ?thesis using d by blast
  qed
  from len f(1) size f(3,4,5,6) chan rate byte_rate align f(11,12) data dlen three
  show ?thesis by blast
qed

theorem wav_layout_witness:
  "frames demo_buffer * numberOfChannels demo_buffer * 2 + 36 < 4294967296
   \<and> sampleRate demo_buffer < 4294967296
   \<and> sampleRate demo_buffer * 2 * numberOfChannels demo_buffer < 4294967296
   \<and> numberOfChannels demo_buffer * 2 < 65536
   \<and> length (audioBufferToWav demo_buffer) = 52
   \<and> getUint32 (audioBufferToWav demo_buffer) 4 = 44
   \<and> getUint16 (audioBufferToWav demo_buffer) 22 = 2
   \<and> getUint32 (audioBufferToWav demo_buffer) 24 = 48000
   \<and> getUint32 (audioBufferToWav demo_buffer) 28 = 192000
   \<and> getUint16 (audioBufferToWav demo_buffer) 32 = 4
   \<and> getUint32 (audioBufferToWav demo_buffer) 40 = 8
   \<and> isRecording three_second_engine
   \<and> recordedBuffers three_second_engine
        = [one_second_stereo, one_second_stereo, one_second_stereo]
   \<and> wf_buffer one_second_stereo \<and> frames one_second_stereo = 48000
   \<and> numberOfChannels one_second_stereo = 2 \<and> sampleRate one_second_stereo = 48000
   \<and> (\<exists>w. downloads (stopRecordingAndDownload three_second_engine)
              = [(''lutox-oscillia-creation.wav'', w)]
          \<and> getUint32 w 40 = 576000 \<and> length (drop 44 w) = 576000)"
proof -
  have d: "frames demo_buffer = 2" "numberOfChannels demo_buffer = 2"
    "sampleRate demo_buffer = 48000"
    by (simp_all add: demo_buffer_def numberOfChannels_def)
  have h: "frames demo_buffer * numberOfChannels demo_buffer * 2 + 36 < 4294967296"
    "sampleRate demo_buffer < 4294967296"
    "sampleRate demo_buffer * 2 * numberOfChannels demo_buffer < 4294967296"
    "numberOfChannels demo_buffer * 2 < 65536"
    by (simp_all add: d)
  have e: "isRecording three_second_engine"
    "recordedBuffers three_second_engine
       = [one_second_stereo, one_second_stereo, one_second_stereo]"
    "downloads three_second_engine = []"
    by (simp_all add: three_second_engine_def new_engine_def)
  have o: "wf_buffer one_second_stereo" "frames one_second_stereo = 48000"
    "numberOfChannels one_second_stereo = 2" "sampleRate one_second_stereo = 48000"
    by (simp_all add: one_second_stereo_def wf_buffer_def numberOfChannels_def)
  note w = wav_layout [OF h]
  from w have fields: "length (audioBufferToWav demo_buffer) = 52"
    "getUint32 (audioBufferToWav demo_buffer) 4 = 44"
    "getUint16 (audioBufferToWav demo_buffer) 22 = 2"
    "getUint32 (audioBufferToWav demo_buffer) 24 = 48000"
    "getUint32 (audioBufferToWav demo_buffer) 28 = 192000"
    "getUint16 (audioBufferToWav demo_buffer) 32 = 4"
    "getUint32 (audioBufferToWav demo_buffer) 40 = 8"
    by (simp_all add: d)
  from w have "\<forall>s b1 b2 b3.
             isRecording s \<and> recordedBuffers s = [b1, b2, b3]
             \<and> (\<forall>x \<in> {b1, b2, b3}. wf_buffer x \<and> frames x = 48000
                    \<and> numberOfChannels x = 2 \<and> sampleRate x = 48000) \<longrightarrow>
             (\<exists>w. downloads (stopRecordingAndDownload s)
                     = downloads s @ [(''lutox-oscillia-creation.wav'', w)]
                  \<and> getUint32 w 40 = 3 * 48000 * 2 * 2
                  \<and> length (drop 44 w) = 3 * 48000 * 2 * 2)"
    by blast
  from this [rule_format, of three_second_engine one_second_stereo one_second_stereo
      one_second_stereo] e o
  have "\<exists>w. downloads (stopRecordingAndDownload three_second_engine)
              = [(''lutox-oscillia-creation.wav'', w)]
          \<and> getUint32 w 40 = 576000 \<and> length (drop 44 w) = 576000"
    by simp
  with h fields e(1,2) o show ?thesis by blast
qed

text \<open>
  C5. The specification says that a clamped sample is scaled towards \<open>-32768\<close> when it is
  negative and towards \<open>32767\<close> otherwise. The code compares \<open>0.5 + sample\<close> with 0, so
  it scales by 32768 only below \<open>-1/2\<close>: the sample \<open>-1/4\<close> is written as \<open>-8191\<close>,
  where the specification's scaling gives \<open>-8192\<close>.
\<close>

theorem negative_sample_scaled_by_32767:
  "encodeSample (- 1 / 4) = - 8191
   \<and> spec_encodeSample (- 1 / 4) = - 8192
   \<and> getInt16 (audioBufferToWav quiet_negative_buffer) 44 = - 8191"
proof -
  have e: "encodeSample (- 1 / 4) = - 8191"
    by (simp add: encodeSample_def toInt32_def Let_def)
  have s: "spec_encodeSample (- 1 / 4) = - 8192"
    by (simp add: spec_encodeSample_def toInt32_def Let_def)
  have e2: "encodeSample (- (1 / 4)) = - 8191"
    using e by simp
  have "getInt16 (audioBufferToWav quiet_negative_buffer) 44 = - 8191"
    by (simp add: audioBufferToWav_def quiet_negative_buffer_def numberOfChannels_def Let_def
        writeData_def writeFrame_def e2 getInt16_def getUint16_def setInt16_def setUint16_def)
  with e s show ?thesis by simp
qed

text \<open>
  C6. For every decoded buffer that arrives when \<open>nextStartTime\<close> is nonzero and lies
  before the audio clock (underrun), the scheduler resets \<open>nextStartTime\<close> to 0, moves
  the playback state to loading, and does not schedule the buffer.
\<close>

theorem underrun_resets_and_drops:
  assumes "nextStartTime s \<noteq> 0" and "nextStartTime s < now"
  shows "nextStartTime (scheduleDecoded now audioBuffer s) = 0
       \<and> playbackState (scheduleDecoded now audioBuffer s) = Loading
       \<and> scheduled (scheduleDecoded now audioBuffer s) = scheduled s
       \<and> ((playbackState s = Playing \<or> playbackState s = Loading)
              \<and> decodeChunk c = Some audioBuffer \<longrightarrow>
            processAudioChunks decodeChunk now (c # cs) s = scheduleDecoded now audioBuffer s)"
  using assms
  by (auto simp: scheduleDecoded_def Let_def setPlaybackState_def dispatchEvent_def
      processAudioChunks_def)

theorem underrun_resets_and_drops_witness:
  "nextStartTime (new_engine\<lparr>nextStartTime := 3, playbackState := Playing\<rparr>) \<noteq> 0
   \<and> nextStartTime (new_engine\<lparr>nextStartTime := 3, playbackState := Playing\<rparr>) < 5
   \<and> nextStartTime (scheduleDecoded 5 demo_buffer
        (new_engine\<lparr>nextStartTime := 3, playbackState := Playing\<rparr>)) = 0
   \<and> playbackState (scheduleDecoded 5 demo_buffer
        (new_engine\<lparr>nextStartTime := 3, playbackState := Playing\<rparr>)) = Loading
   \<and> scheduled (scheduleDecoded 5 demo_buffer
        (new_engine\<lparr>nextStartTime := 3, playbackState := Playing\<rparr>)) = []
   \<and> playbackState (new_engine\<lparr>nextStartTime := 3, playbackState := Playing\<rparr>) = Playing
   \<and> processAudioChunks (\<lambda>c :: nat. Some demo_buffer) 5 [0, 1]
         (new_engine\<lparr>nextStartTime := 3, playbackState := Playing\<rparr>)
       = scheduleDecoded 5 demo_buffer
           (new_engine\<lparr>nextStartTime := 3, playbackState := Playing\<rparr>)"
  using underrun_resets_and_drops
          [where s = "new_engine\<lparr>nextStartTime := 3, playbackState := Playing\<rparr>"
             and now = 5 and audioBuffer = demo_buffer
             and decodeChunk = "\<lambda>c :: nat. Some demo_buffer" and c = 0 and cs = "[1]"]
  by (simp add: new_engine_def)

text \<open>
  C7. In Fallback mode, when \<^verbatim>\<open>setWeightedPrompts\<close> delivers a prompt map with weights
  that are not negative, every fallback player's volume becomes \<open>min weight 1\<close> of the
  first active prompt whose text is the player's key, and 0 when no active prompt has
  that text. The active prompts are then those of positive weight whose text is not
  filtered.
\<close>

theorem fallback_volume_follows_prompt:
  assumes fb: "isFallbackMode s"
    and dom: "\<forall>p \<in> set (map snd ps). 0 \<le> prompt_weight p"
  shows "snd (setWeightedPrompts True rejected ps s) = None
       \<and> activePrompts (fst (setWeightedPrompts True rejected ps s))
           = filter (\<lambda>p. 0 < prompt_weight p \<and> prompt_text p \<notin> set (filteredPrompts s))
                    (map snd ps)
       \<and> map fst (fallbackPlayers (fst (setWeightedPrompts True rejected ps s)))
           = map fst (fallbackPlayers s)
       \<and> (\<forall>i < length (fallbackPlayers s).
             volume (snd (fallbackPlayers (fst (setWeightedPrompts True rejected ps s)) ! i)) =
               (case find (\<lambda>p. prompt_text p = fst (fallbackPlayers s ! i))
                          (activePrompts (fst (setWeightedPrompts True rejected ps s))) of
                  Some p \<Rightarrow> min (prompt_weight p) 1
                | None \<Rightarrow> 0))"
proof -
  let ?s1 = "s\<lparr>prompts := ps\<rparr>"
  let ?vol = "\<lambda>key. (case find (\<lambda>p. prompt_text p = key) (activePrompts ?s1) of
                  Some p \<Rightarrow> min (prompt_weight p) 1 | None \<Rightarrow> 0)"
  have ap: "\<forall>p \<in> set (activePrompts ?s1). 0 \<le> prompt_weight p"
    using dom by (auto simp: activePrompts_def)
  have loop: "setFallbackVolumes (activePrompts ?s1) (fallbackPlayers s) =
      (map (\<lambda>(key, pl). (key, pl\<lparr>volume := ?vol key\<rparr>)) (fallbackPlayers s), None)"
    using setFallbackVolumes_in_range [OF ap] .
  have res: "setWeightedPrompts True rejected ps s =
      (?s1\<lparr>fallbackPlayers :=
          map (\<lambda>(key, pl). (key, pl\<lparr>volume := ?vol key\<rparr>)) (fallbackPlayers s)\<rparr>, None)"
    using fb by (simp add: setWeightedPrompts_def setWeightedPrompts_body_def Let_def loop)
  have act: "activePrompts (fst (setWeightedPrompts True rejected ps s)) = activePrompts ?s1"
    by (simp add: res activePrompts_def)
  have "activePrompts ?s1
           = filter (\<lambda>p. 0 < prompt_weight p \<and> prompt_text p \<notin> set (filteredPrompts s))
                    (map snd ps)"
    unfolding activePrompts_def using dom
    by (intro filter_cong) (auto simp: less_le)
  moreover have "map fst (fallbackPlayers (fst (setWeightedPrompts True rejected ps s)))
           = map fst (fallbackPlayers s)"
    by (simp add: res split_def)
  moreover have "\<forall>i < length (fallbackPlayers s).
             volume (snd (fallbackPlayers (fst (setWeightedPrompts True rejected ps s)) ! i)) =
               ?vol (fst (fallbackPlayers s ! i))"
    by (simp add: res split_def)
  ultimately show ?thesis using res act by simp
qed

theorem fallback_volume_follows_prompt_witness:
  "isFallbackMode fallback_engine
   \<and> list_all (\<lambda>p. 0 \<le> prompt_weight p) (map snd demo_prompts)
   \<and> map fst (fallbackPlayers fallback_engine)
       = [''Bossa Nova'', ''Chillwave'', ''Drum and Bass'', ''Funk'', ''Ambient'', ''Lo-fi'']
   \<and> volume (snd (fallbackPlayers (fst (setWeightedPrompts True None demo_prompts fallback_engine)) ! 3)) = 1
   \<and> volume (snd (fallbackPlayers (fst (setWeightedPrompts True None demo_prompts fallback_engine)) ! 4)) = 2 / 5
   \<and> volume (snd (fallbackPlayers (fst (setWeightedPrompts True None demo_prompts fallback_engine)) ! 5)) = 0
   \<and> volume (snd (fallbackPlayers (fst (setWeightedPrompts True None demo_prompts fallback_engine)) ! 0)) = 0"
proof -
  have e: "isFallbackMode fallback_engine" "filteredPrompts fallback_engine = []"
    "fallbackPlayers fallback_engine =
       [(''Bossa Nova'', new_player), (''Chillwave'', new_player),
        (''Drum and Bass'', new_player), (''Funk'', new_player),
        (''Ambient'', new_player), (''Lo-fi'', new_player)]"
    by (simp_all add: fallback_engine_def initializeFallbackPlayers_def new_engine_def
        FALLBACK_AUDIO_MAP_def)
  have d: "\<forall>p \<in> set (map snd demo_prompts). 0 \<le> prompt_weight p"
    by (simp add: demo_prompts_def)
  note t = fallback_volume_follows_prompt [OF e(1) d, of None]
  from t have a: "activePrompts (fst (setWeightedPrompts True None demo_prompts fallback_engine))
      = [\<lparr> promptId = ''prompt-0'', prompt_text = ''Funk'', prompt_weight = 3 / 2 \<rparr>,
         \<lparr> promptId = ''prompt-1'', prompt_text = ''Ambient'', prompt_weight = 2 / 5 \<rparr>]"
    by (simp add: e demo_prompts_def)
  from t have v: "\<forall>i < 6.
      volume (snd (fallbackPlayers (fst (setWeightedPrompts True None demo_prompts fallback_engine)) ! i)) =
        (case find (\<lambda>p. prompt_text p = fst (fallbackPlayers fallback_engine ! i))
              (activePrompts (fst (setWeightedPrompts True None demo_prompts fallback_engine))) of
           Some p \<Rightarrow> min (prompt_weight p) 1 | None \<Rightarrow> 0)"
    by (simp add: e(3))
  have "volume (snd (fallbackPlayers (fst (setWeightedPrompts True None demo_prompts fallback_engine)) ! 3)) = 1"
    using v [rule_format, of 3] by (simp add: a e(3))
  moreover have "volume (snd (fallbackPlayers (fst (setWeightedPrompts True None demo_prompts fallback_engine)) ! 4)) = 2 / 5"
    using v [rule_format, of 4] by (simp add: a e(3))
  moreover have "volume (snd (fallbackPlayers (fst (setWeightedPrompts True None demo_prompts fallback_engine)) ! 5)) = 0"
    using v [rule_format, of 5] by (simp add: a e(3))
  moreover have "volume (snd (fallbackPlayers (fst (setWeightedPrompts True None demo_prompts fallback_engine)) ! 0)) = 0"
    using v [rule_format, of 0] by (simp add: a e(3))
  ultimately show ?thesis using e d by (simp add: list_all_iff)
qed

text \<open>
  C8. The specification says that the delay feedback equals 0.7 times the delay wet level
  at construction and after every \<^verbatim>\<open>setDelay\<close>. What holds: after every call
  \<^verbatim>\<open>setDelay amount\<close> the wet level settles at \<open>amount\<close> and the feedback at 0.7 times the
  wet level; the constructor sets the feedback to 0.5 and the wet level to 0.
\<close>

theorem setDelay_couples_feedback:
  "delayWetGain (setDelay amount s) = amount
   \<and> delayFeedback (setDelay amount s) = delayWetGain (setDelay amount s) * 0.7
   \<and> delayFeedback new_engine = 0.5 \<and> delayWetGain new_engine = 0"
  by (simp add: setDelay_def new_engine_def)

text \<open>
  C8 as stated fails at construction: the feedback gain is 0.5 while the wet level is 0.
\<close>

theorem constructor_feedback_counterexample:
  "delayFeedback new_engine \<noteq> delayWetGain new_engine * 0.7"
  by (simp add: new_engine_def)

text \<open>
  C9. Of the array of chunks that one \<^verbatim>\<open>onAudioChunk\<close> callback delivers, only the first
  chunk is processed: whatever follows it in the array has no effect on the engine. The
  first chunk is decoded, and while the engine is playing or loading its buffer is
  appended to the recorded buffers when recording is active, and, unless the scheduler
  has fallen behind, scheduled at the next start time (after the pre-roll when none is
  set), which then advances by the buffer's duration.
\<close>

theorem only_first_chunk_processed:
  "processAudioChunks decodeChunk now (c # cs) s = processAudioChunks decodeChunk now [c] s
   \<and> processAudioChunks decodeChunk now (c # cs) s =
       (if playbackState s = Paused \<or> playbackState s = Stopped then s
        else case decodeChunk c of
               None \<Rightarrow> s
             | Some audioBuffer \<Rightarrow> scheduleDecoded now audioBuffer s)
   \<and> ((playbackState s = Playing \<or> playbackState s = Loading)
        \<and> decodeChunk c = Some audioBuffer \<longrightarrow>
        recordedBuffers (processAudioChunks decodeChunk now (c # cs) s)
          = (if isRecording s then recordedBuffers s @ [audioBuffer] else recordedBuffers s)
        \<and> ((nextStartTime s = 0 \<or> now \<le> nextStartTime s) \<and> 0 \<le> bufferTime s \<longrightarrow>
             scheduled (processAudioChunks decodeChunk now (c # cs) s)
               = scheduled s @
                   [(if nextStartTime s = 0 then now + bufferTime s else nextStartTime s,
                     audioBuffer)]
             \<and> nextStartTime (processAudioChunks decodeChunk now (c # cs) s)
               = (if nextStartTime s = 0 then now + bufferTime s else nextStartTime s)
                   + duration audioBuffer))"
  by (auto simp: processAudioChunks_def scheduleDecoded_def Let_def setPlaybackState_def
      dispatchEvent_def)

theorem only_first_chunk_processed_witness:
  "playbackState first_chunk_engine = Playing
   \<and> demo_decoder 0 = Some demo_buffer \<and> demo_decoder 1 = Some mono_buffer
   \<and> isRecording first_chunk_engine
   \<and> 5 \<le> nextStartTime first_chunk_engine \<and> 0 \<le> bufferTime first_chunk_engine
   \<and> recordedBuffers (processAudioChunks demo_decoder 5 [0, 1] first_chunk_engine)
        = [demo_buffer]
   \<and> scheduled (processAudioChunks demo_decoder 5 [0, 1] first_chunk_engine)
        = [(7, demo_buffer)]
   \<and> nextStartTime (processAudioChunks demo_decoder 5 [0, 1] first_chunk_engine)
        = 7 + duration demo_buffer"
proof -
  have h: "playbackState first_chunk_engine = Playing" "isRecording first_chunk_engine"
    "nextStartTime first_chunk_engine = 7" "bufferTime first_chunk_engine = 2"
    "recordedBuffers first_chunk_engine = []" "scheduled first_chunk_engine = []"
    by (simp_all add: first_chunk_engine_def new_engine_def)
  have d: "demo_decoder 0 = Some demo_buffer" "demo_decoder 1 = Some mono_buffer"
    by (simp_all add: demo_decoder_def)
  from only_first_chunk_processed
         [where decodeChunk = demo_decoder and now = 5 and c = 0 and cs = "[1]"
            and s = first_chunk_engine and audioBuffer = demo_buffer,
          THEN conjunct2, THEN conjunct2] h d
  show ?thesis by simp
qed

text \<open>
  C10. While recording is active, a decoded buffer that triggers the underrun branch is
  appended to the recorded buffers before the underrun check, and it is not scheduled.
  \<^verbatim>\<open>stopRecordingAndDownload\<close> then emits the WAV of the concatenation of the buffers
  recorded so far followed by this buffer. For well-formed buffers that have the first
  buffer's channels, a file is emitted without an error event, and its data chunk ends
  with the samples of this buffer: frame \<open>i\<close>, channel \<open>ch\<close> of the buffer is the 16-bit
  value at sample position \<open>(F + i) * c + ch\<close>, where \<open>F\<close> is the number of frames
  recorded before it and \<open>c\<close> the channel count.
\<close>

theorem underrun_buffer_is_recorded:
  assumes "isRecording s" and "nextStartTime s \<noteq> 0" and "nextStartTime s < now"
  shows "recordedBuffers (scheduleDecoded now audioBuffer s) = recordedBuffers s @ [audioBuffer]
       \<and> scheduled (scheduleDecoded now audioBuffer s) = scheduled s
       \<and> (\<forall>full. concatenateAudioBuffers (recordedBuffers s @ [audioBuffer]) = Inr full \<longrightarrow>
            downloads (stopRecordingAndDownload (scheduleDecoded now audioBuffer s))
              = downloads s @ [(''lutox-oscillia-creation.wav'', audioBufferToWav full)])
       \<and> ((\<forall>b \<in> set (recordedBuffers s @ [audioBuffer]).
              wf_buffer b
              \<and> numberOfChannels (hd (recordedBuffers s @ [audioBuffer])) \<le> numberOfChannels b) \<longrightarrow>
            (\<exists>w. downloads (stopRecordingAndDownload (scheduleDecoded now audioBuffer s))
                    = downloads s @ [(''lutox-oscillia-creation.wav'', w)]
                 \<and> events (stopRecordingAndDownload (scheduleDecoded now audioBuffer s))
                    = events s @ [PlaybackStateChanged Loading, RecordingStateChanged False]
                 \<and> length w = 44 + (sum_list (map frames (recordedBuffers s)) + frames audioBuffer)
                                  * numberOfChannels (hd (recordedBuffers s @ [audioBuffer])) * 2
                 \<and> (\<forall>i < frames audioBuffer.
                      \<forall>ch < numberOfChannels (hd (recordedBuffers s @ [audioBuffer])).
                        getInt16 w (44 + 2 * ((sum_list (map frames (recordedBuffers s)) + i)
                                   * numberOfChannels (hd (recordedBuffers s @ [audioBuffer])) + ch))
                          = encodeSample (channelData audioBuffer ! ch ! i))))"
proof -
  let ?s' = "scheduleDecoded now audioBuffer s"
  let ?bs = "recordedBuffers s @ [audioBuffer]"
  let ?nc = "numberOfChannels (hd ?bs)"
  let ?F = "sum_list (map frames (recordedBuffers s))"
  have st: "recordedBuffers ?s' = ?bs" "scheduled ?s' = scheduled s" "isRecording ?s'"
    "downloads ?s' = downloads s" "events ?s' = events s @ [PlaybackStateChanged Loading]"
    using assms
    by (simp_all add: scheduleDecoded_def Let_def setPlaybackState_def dispatchEvent_def)
  have old: "\<forall>full. concatenateAudioBuffers ?bs = Inr full \<longrightarrow>
            downloads (stopRecordingAndDownload ?s')
              = downloads s @ [(''lutox-oscillia-creation.wav'', audioBufferToWav full)]"
    using st by (simp add: stopRecordingAndDownload_def dispatchEvent_def Let_def)
  have new: "\<exists>w. downloads (stopRecordingAndDownload ?s')
                    = downloads s @ [(''lutox-oscillia-creation.wav'', w)]
                 \<and> events (stopRecordingAndDownload ?s')
                    = events s @ [PlaybackStateChanged Loading, RecordingStateChanged False]
                 \<and> length w = 44 + (?F + frames audioBuffer) * ?nc * 2
                 \<and> (\<forall>i < frames audioBuffer. \<forall>ch < ?nc.
                        getInt16 w (44 + 2 * ((?F + i) * ?nc + ch))
                          = encodeSample (channelData audioBuffer ! ch ! i))"
    if wf: "\<forall>b \<in> set ?bs. wf_buffer b \<and> ?nc \<le> numberOfChannels b"
  proof -
    let ?full = "\<lparr> sampleRate = sampleRate (hd ?bs), frames = sum_list (map frames ?bs),
                    channelData = map (\<lambda>ch. concat (map (\<lambda>b. channelData b ! ch) ?bs))
                                      [0 ..< ?nc] \<rparr>"
    have c: "concatenateAudioBuffers ?bs = Inr ?full"
      using wf by (intro concatenate_ok) simp_all
    have nf: "numberOfChannels ?full = ?nc" "frames ?full = ?F + frames audioBuffer"
      by (simp_all add: numberOfChannels_def)
    have d: "downloads (stopRecordingAndDownload ?s')
               = downloads s @ [(''lutox-oscillia-creation.wav'', audioBufferToWav ?full)]"
      using old c by blast
    have e: "events (stopRecordingAndDownload ?s')
               = events s @ [PlaybackStateChanged Loading, RecordingStateChanged False]"
      using st c by (simp add: stopRecordingAndDownload_def dispatchEvent_def Let_def)
    have len: "length (audioBufferToWav ?full) = 44 + (?F + frames audioBuffer) * ?nc * 2"
      by (simp only: length_audioBufferToWav nf)
    have smp: "getInt16 (audioBufferToWav ?full) (44 + 2 * ((?F + i) * ?nc + ch))
                 = encodeSample (channelData audioBuffer ! ch ! i)"
      if i: "i < frames audioBuffer" and ch: "ch < ?nc" for i ch
    proof -
      have lens: "\<forall>b \<in> set (recordedBuffers s). length (channelData b ! ch) = frames b"
      proof
        fix b assume "b \<in> set (recordedBuffers s)"
        with wf have "wf_buffer b" "?nc \<le> numberOfChannels b" by simp_all
        with ch show "length (channelData b ! ch) = frames b"
          by (simp add: wf_buffer_def list_all_length numberOfChannels_def)
      qed
      have pre: "length (concat (map (\<lambda>b. channelData b ! ch) (recordedBuffers s))) = ?F"
        using lens by (rule length_concat_channel)
      have "channelData ?full ! ch
              = concat (map (\<lambda>b. channelData b ! ch) (recordedBuffers s))
                @ channelData audioBuffer ! ch"
        using ch by simp
      moreover have "(concat (map (\<lambda>b. channelData b ! ch) (recordedBuffers s))
                       @ channelData audioBuffer ! ch)
                      ! (length (concat (map (\<lambda>b. channelData b ! ch) (recordedBuffers s))) + i)
                     = channelData audioBuffer ! ch ! i"
        by (rule nth_append_length_plus)
      ultimately have "channelData ?full ! ch ! (?F + i) = channelData audioBuffer ! ch ! i"
        unfolding pre by (simp only:)
      moreover have "?F + i < frames ?full" using i by simp
      moreover have "ch < numberOfChannels ?full" using ch by (simp add: numberOfChannels_def)
      ultimately have "getInt16 (audioBufferToWav ?full)
                       (44 + 2 * ((?F + i) * numberOfChannels ?full + ch))
                     = encodeSample (channelData audioBuffer ! ch ! i)"
        using audioBufferToWav_sample [of "?F + i" ?full ch] by (simp only:)
      then show ?thesis by (simp only: nf)
    qed
    from d e len smp show ?thesis by blast
  qed
  from st(1,2) old new show ?thesis by blast
qed

theorem underrun_buffer_is_recorded_witness:
  "isRecording underrun_recording_engine
   \<and> nextStartTime underrun_recording_engine \<noteq> 0
   \<and> nextStartTime underrun_recording_engine < 5
   \<and> wf_buffer demo_buffer
   \<and> recordedBuffers (scheduleDecoded 5 demo_buffer underrun_recording_engine)
        = [demo_buffer, demo_buffer]
   \<and> scheduled (scheduleDecoded 5 demo_buffer underrun_recording_engine) = []
   \<and> concatenateAudioBuffers [demo_buffer, demo_buffer] =
        Inr \<lparr> sampleRate = 48000, frames = 4,
              channelData = [ [0, 1 / 2, 0, 1 / 2], [- 1 / 4, 1, - 1 / 4, 1] ] \<rparr>
   \<and> downloads (stopRecordingAndDownload (scheduleDecoded 5 demo_buffer underrun_recording_engine))
        = [(''lutox-oscillia-creation.wav'',
            audioBufferToWav \<lparr> sampleRate = 48000, frames = 4,
              channelData = [ [0, 1 / 2, 0, 1 / 2], [- 1 / 4, 1, - 1 / 4, 1] ] \<rparr>)]
   \<and> (\<exists>w. downloads (stopRecordingAndDownload
                (scheduleDecoded 5 demo_buffer underrun_recording_engine))
              = [(''lutox-oscillia-creation.wav'', w)]
          \<and> length w = 60
          \<and> getInt16 w 52 = 0 \<and> getInt16 w 54 = - 8191
          \<and> getInt16 w 56 = 16383 \<and> getInt16 w 58 = 32767)"
proof -
  have c: "concatenateAudioBuffers [demo_buffer, demo_buffer] =
        Inr \<lparr> sampleRate = 48000, frames = 4,
              channelData = [ [0, 1 / 2, 0, 1 / 2], [- 1 / 4, 1, - 1 / 4, 1] ] \<rparr>"
    using concatenate_ok [of "[demo_buffer, demo_buffer]"]
    by (simp add: demo_buffer_def wf_buffer_def numberOfChannels_def upt_rec_numeral)
  have h: "isRecording underrun_recording_engine"
    "nextStartTime underrun_recording_engine \<noteq> 0"
    "nextStartTime underrun_recording_engine < 5"
    "recordedBuffers underrun_recording_engine = [demo_buffer]"
    "scheduled underrun_recording_engine = []"
    "downloads underrun_recording_engine = []"
    by (simp_all add: underrun_recording_engine_def new_engine_def)
  have d: "wf_buffer demo_buffer" "frames demo_buffer = 2" "numberOfChannels demo_buffer = 2"
    by (simp_all add: demo_buffer_def wf_buffer_def numberOfChannels_def)
  have v: "encodeSample (channelData demo_buffer ! 0 ! 0) = 0"
    "encodeSample (channelData demo_buffer ! 1 ! 0) = - 8191"
    "encodeSample (channelData demo_buffer ! 0 ! 1) = 16383"
    "encodeSample (channelData demo_buffer ! 1 ! 1) = 32767"
    by (simp_all add: demo_buffer_def encodeSample_def toInt32_def Let_def)
  note t = underrun_buffer_is_recorded [OF h(1,2,3), of demo_buffer]
  from t c h have old:
    "recordedBuffers (scheduleDecoded 5 demo_buffer underrun_recording_engine)
        = [demo_buffer, demo_buffer]"
    "scheduled (scheduleDecoded 5 demo_buffer underrun_recording_engine) = []"
    "downloads (stopRecordingAndDownload (scheduleDecoded 5 demo_buffer underrun_recording_engine))
        = [(''lutox-oscillia-creation.wav'',
            audioBufferToWav \<lparr> sampleRate = 48000, frames = 4,
              channelData = [ [0, 1 / 2, 0, 1 / 2], [- 1 / 4, 1, - 1 / 4, 1] ] \<rparr>)]"
    by simp_all
  from t h d obtain w where w:
    "downloads (stopRecordingAndDownload (scheduleDecoded 5 demo_buffer underrun_recording_engine))
       = [(''lutox-oscillia-creation.wav'', w)]"
    "length w = 60"
    "\<forall>i < 2. \<forall>ch < 2. getInt16 w (44 + 2 * ((2 + i) * 2 + ch))
        = encodeSample (channelData demo_buffer ! ch ! i)"
    by auto
  have "getInt16 w 52 = 0" using w(3) [rule_format, of 0 0] v by simp
  moreover have "getInt16 w 54 = - 8191" using w(3) [rule_format, of 0 1] v by simp
  moreover have "getInt16 w 56 = 16383" using w(3) [rule_format, of 1 0] v by simp
  moreover have "getInt16 w 58 = 32767" using w(3) [rule_format, of 1 1] v by simp
  ultimately have "getInt16 w 52 = 0 \<and> getInt16 w 54 = - 8191 \<and> getInt16 w 56 = 16383
    \<and> getInt16 w 58 = 32767"
    by simp
  with w(1,2) have "\<exists>w. downloads (stopRecordingAndDownload
                (scheduleDecoded 5 demo_buffer underrun_recording_engine))
              = [(''lutox-oscillia-creation.wav'', w)]
          \<and> length w = 60
          \<and> getInt16 w 52 = 0 \<and> getInt16 w 54 = - 8191
          \<and> getInt16 w 56 = 16383 \<and> getInt16 w 58 = 32767"
    by blast
  with h(1,2,3) d(1) old c show ?thesis by blast
qed

end
